theory Spec2Isabelle
  imports Main "HOL-Library.Sublist"
begin

section \<open>The shell of shell.c: process launch and job control\<close>

text \<open>
  The development follows the second, complete version of \<^verbatim>\<open>shell.c\<close>
  (\<^verbatim>\<open>launch_process\<close>, \<^verbatim>\<open>execute_cmd\<close>, \<^verbatim>\<open>process_redirects_io\<close>,
  \<^verbatim>\<open>put_process_in_foreground\<close> and their helpers). Every system call the code
  issues is appended to a log, and changes the part of the process or of the terminal
  that the call changes. The file system, the \<^verbatim>\<open>PATH\<close> variable, the value
  \<^verbatim>\<open>fork\<close> returns and the time each child needs to terminate are inputs.
\<close>

subsection \<open>Data\<close>

type_synonym pid_t = int

text \<open>\<^verbatim>\<open>struct termios\<close> is opaque to the shell: it is only saved and written back.\<close>

type_synonym termios = nat

datatype signal = SIGINT | SIGTSTP | SIGTTOU

datatype handler = SIG_DFL | SIG_IGN

text \<open>What a standard descriptor of a process is bound to.\<close>

datatype stream = Inherited | File string

datatype call =
    Setpgid pid_t pid_t
  | Signal signal handler
  | Fopen string string
  | Dup2 string int
  | Execv string "string list"
  | Printf string
  | Exit int
  | Fork
  | Kill pid_t
  | Tcgetpgrp int
  | Tcsetpgrp int pid_t
  | Tcgetattr int
  | Tcsetattr int termios
  | Wait

text \<open>
  The kernel's record of one process, as far as the launch code changes it: its ids, the
  disposition of the three job-control signals, the files behind descriptors 0 and 1,
  and the calls it has issued so far.
\<close>

record proc =
  pid :: pid_t
  pgid :: pid_t
  sigint :: handler
  sigtstp :: handler
  sigttou :: handler
  fd0 :: stream
  fd1 :: stream
  log :: "call list"

text \<open>
  What a child process finds around it: the value of \<^verbatim>\<open>getenv("PATH")\<close>
  (\<open>None\<close> is the null pointer of an unset variable), the files \<^verbatim>\<open>fopen\<close> can open
  for reading and for writing, and the paths on which \<^verbatim>\<open>execv\<close> succeeds.
\<close>

record env =
  PATH :: "string option"
  can_read :: "string \<Rightarrow> bool"
  can_write :: "string \<Rightarrow> bool"
  can_exec :: "string \<Rightarrow> bool"

text \<open>
  Places where the C code leaves defined behaviour: a null pointer given to
  \<^verbatim>\<open>strcmp\<close>, \<^verbatim>\<open>strchr\<close> or \<^verbatim>\<open>fopen\<close>; the null stream of a failed
  \<^verbatim>\<open>fopen\<close> given to \<^verbatim>\<open>fileno\<close>; a candidate path that does not fit
  \<^verbatim>\<open>char full_path_cmd[256]\<close>; a read past the end of the argument array.
\<close>

datatype ub = NullString | NullStream | BufferOverflow | OutOfBounds

text \<open>
  How a piece of child-side code ends: it returns a value to its caller, the process
  image is replaced (\<^verbatim>\<open>execv\<close> succeeded on the path, with the argument vector the
  new program receives), the process exits, or behaviour is undefined from there on.
  Each carries the process as it was at that moment.
\<close>

datatype 'a outcome =
    Returns 'a proc
  | Replaced string "string list" proc
  | Exited int proc
  | Undefined ub proc

fun reached :: "'a outcome \<Rightarrow> proc" where
  "reached (Returns _ p) = p"
| "reached (Replaced _ _ p) = p"
| "reached (Exited _ p) = p"
| "reached (Undefined _ p) = p"

definition emit :: "call \<Rightarrow> proc \<Rightarrow> proc" where
  "emit c p = p\<lparr>log := log p @ [c]\<rparr>"

subsection \<open>Tokens and the argument array\<close>

text \<open>
  Modelled from the spec: \<^verbatim>\<open>tokenizer.h\<close> and its implementation are not among the
  sources. The spec's input contract is an ordered sequence of string tokens for one
  input line; \<^verbatim>\<open>tokens_get_length\<close> is its length and \<^verbatim>\<open>tokens_get_token\<close>
  the token at an index (the null pointer outside the sequence).
\<close>

definition tokens_get_length :: "string list \<Rightarrow> nat" where
  "tokens_get_length tokens = length tokens"

definition tokens_get_token :: "string list \<Rightarrow> nat \<Rightarrow> string option" where
  "tokens_get_token tokens n = (if n < length tokens then Some (tokens ! n) else None)"

text \<open>
  \<^verbatim>\<open>char *cmd_argv[cmd_argc + 1]\<close>: an array of pointers, \<open>None\<close> the null pointer.
  The program that \<^verbatim>\<open>execv\<close> starts receives the entries before the first null.
\<close>

type_synonym argv = "string option list"

definition argv_view :: "argv \<Rightarrow> string list" where
  "argv_view a = map the (takeWhile (\<lambda>x. x \<noteq> None) a)"

definition build_argv :: "string list \<Rightarrow> argv" where
  "build_argv tokens =
     map (tokens_get_token tokens) [0..<tokens_get_length tokens] @ [None]"

subsection \<open>Child side\<close>

text \<open>\<^verbatim>\<open>setpgid(0, 0)\<close> in the child: the caller becomes the leader of a group named
  after its own pid.\<close>

definition setpgid_self :: "proc \<Rightarrow> proc" where
  "setpgid_self p = emit (Setpgid 0 0) (p\<lparr>pgid := pid p\<rparr>)"

definition signal_set :: "signal \<Rightarrow> handler \<Rightarrow> proc \<Rightarrow> proc" where
  "signal_set sg h p =
     emit (Signal sg h)
       (case sg of SIGINT \<Rightarrow> p\<lparr>sigint := h\<rparr>
                 | SIGTSTP \<Rightarrow> p\<lparr>sigtstp := h\<rparr>
                 | SIGTTOU \<Rightarrow> p\<lparr>sigttou := h\<rparr>)"

definition init_child_process :: "proc \<Rightarrow> proc" where
  "init_child_process p =
     signal_set SIGTTOU SIG_DFL (signal_set SIGTSTP SIG_DFL (signal_set SIGINT SIG_DFL p))"

definition cmd_needs_path_resolution :: "string \<Rightarrow> bool" where
  "cmd_needs_path_resolution cmd = (CHR ''/'' \<notin> set cmd)"

definition program_needs_io_redirection :: "string list \<Rightarrow> bool" where
  "program_needs_io_redirection tokens =
     (\<exists>i \<in> {0..<tokens_get_length tokens}.
        tokens_get_token tokens i = Some ''<'' \<or> tokens_get_token tokens i = Some ''>'')"

definition program_needs_put_in_background :: "string list \<Rightarrow> bool" where
  "program_needs_put_in_background tokens =
     (\<exists>i \<in> {0..<tokens_get_length tokens}. tokens_get_token tokens i = Some ''&'')"

text \<open>
  One redirection: \<^verbatim>\<open>fopen(argv[i + 1], mode)\<close>, \<^verbatim>\<open>dup2(fileno(file), fd)\<close>,
  \<^verbatim>\<open>argv[i] = NULL\<close>. The result of \<^verbatim>\<open>fopen\<close> is not tested: a null file name
  or a file that cannot be opened leaves defined behaviour.
\<close>

definition redirect :: "env \<Rightarrow> bool \<Rightarrow> nat \<Rightarrow> argv \<Rightarrow> proc \<Rightarrow> argv outcome" where
  "redirect e input i a p =
     (case a ! (i + 1) of
        None \<Rightarrow> Undefined NullString p
      | Some name \<Rightarrow>
          let p1 = emit (Fopen name (if input then ''r'' else ''w'')) p in
          if (if input then can_read e name else can_write e name)
          then Returns (a[i := None])
                 (emit (Dup2 name (if input then 0 else 1))
                    (if input then p1\<lparr>fd0 := File name\<rparr> else p1\<lparr>fd1 := File name\<rparr>))
          else Undefined NullStream p1)"

function process_redirects_io_from ::
  "env \<Rightarrow> nat \<Rightarrow> nat \<Rightarrow> argv \<Rightarrow> proc \<Rightarrow> argv outcome" where
  "process_redirects_io_from e argc i a p =
     (if i < argc then
        (case a ! i of
           None \<Rightarrow> Undefined NullString p
         | Some t \<Rightarrow>
             if t = ''<'' then redirect e True i a p
             else if t = ''>'' then redirect e False i a p
             else process_redirects_io_from e argc (i + 1) a p)
      else Returns a p)"
  by pat_completeness auto
termination
  by (relation "measure (\<lambda>(e, argc, i, a, p). argc - i)") auto

declare process_redirects_io_from.simps [simp del]

definition process_redirects_io :: "env \<Rightarrow> nat \<Rightarrow> argv \<Rightarrow> proc \<Rightarrow> argv outcome" where
  "process_redirects_io e argc a p = process_redirects_io_from e argc 0 a p"

function remove_flag_from :: "nat \<Rightarrow> argv \<Rightarrow> proc \<Rightarrow> argv outcome" where
  "remove_flag_from i a p =
     (if i < length a then
        (case a ! i of
           None \<Rightarrow> Returns a p
         | Some t \<Rightarrow>
             if t = ''&'' then Returns (a[i := None]) p
             else remove_flag_from (i + 1) a p)
      else Undefined OutOfBounds p)"
  by pat_completeness auto
termination
  by (relation "measure (\<lambda>(i, a, p). length a - i)") auto

declare remove_flag_from.simps [simp del]

definition cmd_line_remove_put_process_in_background_flag ::
  "argv \<Rightarrow> proc \<Rightarrow> argv outcome" where
  "cmd_line_remove_put_process_in_background_flag a p = remove_flag_from 0 a p"

text \<open>
  \<^verbatim>\<open>execv(path, argv)\<close>: on success the image is replaced and nothing after the call
  runs; on failure it returns \<open>-1\<close>.
\<close>

definition execv :: "env \<Rightarrow> string \<Rightarrow> argv \<Rightarrow> proc \<Rightarrow> int outcome" where
  "execv e path a p =
     (let p1 = emit (Execv path (argv_view a)) p in
      if can_exec e path then Replaced path (argv_view a) p1 else Returns (- 1) p1)"

text \<open>
  \<^verbatim>\<open>strsep(&s, ":")\<close>: a null \<open>s\<close> gives null; otherwise the text before the first
  delimiter is returned and \<open>s\<close> moves behind the delimiter, or becomes null when there
  is none.
\<close>

fun strsep :: "string option \<Rightarrow> char \<Rightarrow> string option \<times> string option" where
  "strsep None d = (None, None)"
| "strsep (Some s) d =
     (Some (takeWhile (\<lambda>c. c \<noteq> d) s),
      case dropWhile (\<lambda>c. c \<noteq> d) s of [] \<Rightarrow> None | _ # r \<Rightarrow> Some r)"

text \<open>What is left of the string, as a number that decreases with every \<^verbatim>\<open>strsep\<close>.\<close>

fun strsize :: "string option \<Rightarrow> nat" where
  "strsize None = 0"
| "strsize (Some s) = Suc (length s)"

text \<open>
  The \<^verbatim>\<open>while\<close> loop of \<^verbatim>\<open>execute_cmd\<close>. \<^verbatim>\<open>strcpy\<close> and two \<^verbatim>\<open>strcat\<close>
  build the candidate in \<^verbatim>\<open>char full_path_cmd[256]\<close>, which holds at most 255
  characters and the terminator.
\<close>

function resolve_loop :: "env \<Rightarrow> string option \<Rightarrow> argv \<Rightarrow> proc \<Rightarrow> int outcome" where
  "resolve_loop e path_env a p =
     (case strsep path_env CHR '':'' of
        (None, _) \<Rightarrow> Returns (- 1) p
      | (Some each_dir, rest) \<Rightarrow>
          (case a ! 0 of
             None \<Rightarrow> Undefined NullString p
           | Some cmd \<Rightarrow>
               let full_path_cmd = each_dir @ ''/'' @ cmd in
               if 256 \<le> length full_path_cmd then Undefined BufferOverflow p
               else
                 let cmd_tmp = a ! 0;
                     a1 = a[0 := Some full_path_cmd]
                 in (case execv e full_path_cmd a1 p of
                       Returns _ p1 \<Rightarrow> resolve_loop e rest (a1[0 := cmd_tmp]) p1
                     | Replaced path av p1 \<Rightarrow> Replaced path av p1
                     | Exited n p1 \<Rightarrow> Exited n p1
                     | Undefined u p1 \<Rightarrow> Undefined u p1)))"
  by pat_completeness auto
termination
proof (relation "measure (\<lambda>(e, path_env, a, p). strsize path_env)")
  show "wf (measure (\<lambda>(e, path_env, a, p). strsize path_env))"
    by simp
next
  fix e :: env and path_env :: "string option" and a :: argv and p :: proc
    and x t rest x2 x2a xa xb xc x1 x2b
  assume sep: "(t, rest) = strsep path_env CHR '':''" and t: "t = Some x2"
  show "((e, rest, xc[0 := xb], x2b), (e, path_env, a, p))
          \<in> measure (\<lambda>(e, path_env, a, p). strsize path_env)"
  proof (cases path_env)
    case None
    with sep t show ?thesis by simp
  next
    case (Some s)
    let ?r = "dropWhile (\<lambda>c. c \<noteq> CHR '':'') s"
    have rest: "rest = (case ?r of [] \<Rightarrow> None | _ # r \<Rightarrow> Some r)"
      using sep Some by simp
    have le: "length ?r \<le> length s"
      by (rule length_dropWhile_le)
    have "strsize rest < strsize path_env"
    proof (cases ?r)
      case Nil
      with rest Some show ?thesis by simp
    next
      case (Cons c r)
      with le have "length r < length s" by simp
      with rest Cons Some show ?thesis by simp
    qed
    then show ?thesis by simp
  qed
qed

declare resolve_loop.simps [simp del]

definition resolve_and_exec :: "env \<Rightarrow> argv \<Rightarrow> proc \<Rightarrow> int outcome" where
  "resolve_and_exec e a p =
     (case a ! 0 of
        None \<Rightarrow> Undefined NullString p
      | Some cmd \<Rightarrow>
          if cmd_needs_path_resolution cmd then resolve_loop e (PATH e) a p
          else execv e cmd a p)"

definition execute_cmd :: "env \<Rightarrow> string list \<Rightarrow> proc \<Rightarrow> int outcome" where
  "execute_cmd e tokens p =
     (let cmd_argc = tokens_get_length tokens;
          cmd_argv = build_argv tokens
      in case (if program_needs_io_redirection tokens
               then process_redirects_io e cmd_argc cmd_argv p
               else Returns cmd_argv p) of
           Returns a1 p1 \<Rightarrow>
             (case (if program_needs_put_in_background tokens
                    then cmd_line_remove_put_process_in_background_flag a1 p1
                    else Returns a1 p1) of
                Returns a2 p2 \<Rightarrow> resolve_and_exec e a2 p2
              | Replaced path av p2 \<Rightarrow> Replaced path av p2
              | Exited n p2 \<Rightarrow> Exited n p2
              | Undefined u p2 \<Rightarrow> Undefined u p2)
         | Replaced path av p1 \<Rightarrow> Replaced path av p1
         | Exited n p1 \<Rightarrow> Exited n p1
         | Undefined u p1 \<Rightarrow> Undefined u p1)"

text \<open>The text of the diagnostic of \<^verbatim>\<open>launch_process\<close>, written to standard output.\<close>

definition diagnostic :: string where
  "diagnostic = ''This shell doesn'' @ [CHR 0x27] @ ''t know how to run programs.'' @ [CHR 0x0A]"

text \<open>
  \<^verbatim>\<open>launch_process\<close> in the process where \<^verbatim>\<open>fork\<close> returned 0:
  \<^verbatim>\<open>setpgid(0, 0)\<close>, \<^verbatim>\<open>init_child_process\<close>, \<^verbatim>\<open>execute_cmd\<close>, and the
  diagnostic with \<^verbatim>\<open>exit(1)\<close> when that returns \<open>-1\<close>. Any other return value
  would fall out of the \<^verbatim>\<open>if\<close> and return to the read loop.
\<close>

definition launch_process_child :: "env \<Rightarrow> string list \<Rightarrow> proc \<Rightarrow> unit outcome" where
  "launch_process_child e tokens p =
     (case execute_cmd e tokens (init_child_process (setpgid_self p)) of
        Returns r p1 \<Rightarrow>
          if r = - 1 then Exited 1 (emit (Exit 1) (emit (Printf diagnostic) p1))
          else Returns () p1
      | Replaced path av p1 \<Rightarrow> Replaced path av p1
      | Exited n p1 \<Rightarrow> Exited n p1
      | Undefined u p1 \<Rightarrow> Undefined u p1)"

subsection \<open>Parent side\<close>

text \<open>
  A child the shell has not waited for yet: its pid, its process group, the time from
  now until it terminates (0: it has terminated already) and the terminal settings it
  leaves behind when it ends while its group owns the terminal.
\<close>

record child =
  cpid :: pid_t
  cpgid :: pid_t
  lifetime :: nat
  leaves :: termios

text \<open>
  The shell process: the four globals of \<^verbatim>\<open>shell.c\<close>, the shell's own process
  entry, and what the kernel holds for it: whether descriptor 0 is a terminal, that
  terminal's foreground process group and settings, the children not yet waited for,
  and the time the shell has spent blocked.
\<close>

record state =
  shell_is_interactive :: bool
  shell_terminal :: int
  shell_tmodes :: termios
  shell_pgid :: pid_t
  self :: proc
  tty :: bool
  fg :: pid_t
  modes :: termios
  children :: "child list"
  blocked :: nat

definition sys :: "call \<Rightarrow> state \<Rightarrow> state" where
  "sys c s = s\<lparr>self := emit c (self s)\<rparr>"

text \<open>The process groups of the session that the shell can name: its own and its children's.\<close>

definition in_session :: "state \<Rightarrow> pid_t \<Rightarrow> bool" where
  "in_session s g = (g = pgid (self s) \<or> g \<in> set (map cpgid (children s)))"

text \<open>
  \<^verbatim>\<open>tcsetpgrp\<close> and \<^verbatim>\<open>tcsetattr\<close> fail and change nothing when the descriptor
  is not a terminal (\<^verbatim>\<open>ENOTTY\<close>), \<^verbatim>\<open>tcsetpgrp\<close> also when the group id is
  not positive or not one of the session. The shell never tests their result.
\<close>

definition tcsetpgrp :: "int \<Rightarrow> pid_t \<Rightarrow> state \<Rightarrow> state" where
  "tcsetpgrp fd g s =
     (let s1 = sys (Tcsetpgrp fd g) s
      in if fd = 0 \<and> tty s \<and> 0 < g \<and> in_session s g then s1\<lparr>fg := g\<rparr> else s1)"

definition tcsetattr :: "int \<Rightarrow> termios \<Rightarrow> state \<Rightarrow> state" where
  "tcsetattr fd m s =
     (let s1 = sys (Tcsetattr fd m) s
      in if fd = 0 \<and> tty s then s1\<lparr>modes := m\<rparr> else s1)"

text \<open>\<^verbatim>\<open>setpgid(pid, pid)\<close> in the parent: it moves the child \<open>pid\<close> into a group of
  its own; any other \<open>pid\<close> (such as \<open>-1\<close>) is an error and changes nothing.\<close>

definition setpgid :: "pid_t \<Rightarrow> pid_t \<Rightarrow> state \<Rightarrow> state" where
  "setpgid p g s =
     (let s1 = sys (Setpgid p g) s
      in if 0 < p \<and> p = g \<and> p \<in> set (map cpid (children s))
         then s1\<lparr>children := map (\<lambda>c. if cpid c = p then c\<lparr>cpgid := g\<rparr> else c) (children s)\<rparr>
         else s1)"

text \<open>
  \<^verbatim>\<open>wait(NULL)\<close>: with no child it fails at once (\<open>-1\<close>); otherwise the caller is
  blocked until the first of its children has terminated, whichever child that is, and
  that child is removed. The earliest in the list wins among equals.
\<close>

fun soonest :: "child list \<Rightarrow> child option" where
  "soonest [] = None"
| "soonest (c # cs) =
     (case soonest cs of
        None \<Rightarrow> Some c
      | Some d \<Rightarrow> if lifetime c \<le> lifetime d then Some c else Some d)"

definition wait_any :: "state \<Rightarrow> pid_t \<times> state" where
  "wait_any s =
     (let s1 = sys Wait s
      in case soonest (children s) of
           None \<Rightarrow> (- 1, s1)
         | Some c \<Rightarrow>
             (cpid c,
              s1\<lparr>children :=
                    map (\<lambda>d. d\<lparr>lifetime := lifetime d - lifetime c\<rparr>)
                      (filter (\<lambda>d. cpid d \<noteq> cpid c) (children s)),
                  blocked := blocked s + lifetime c,
                  modes := (if tty s \<and> cpgid c = fg s then leaves c else modes s)\<rparr>))"

definition put_process_in_foreground :: "pid_t \<Rightarrow> state \<Rightarrow> state" where
  "put_process_in_foreground p s =
     (let s1 = tcsetpgrp (shell_terminal s) p s;
          s2 = snd (wait_any s1);
          s3 = tcsetpgrp (shell_terminal s2) (shell_pgid s2) s2
      in tcsetattr (shell_terminal s3) (shell_tmodes s3) s3)"

text \<open>The body of \<^verbatim>\<open>put_process_in_background\<close> is a comment.\<close>

definition put_process_in_background :: "pid_t \<Rightarrow> state \<Rightarrow> state" where
  "put_process_in_background p s = s"

text \<open>
  \<^verbatim>\<open>fork\<close> as the parent sees it: the kernel either refuses (\<open>None\<close>, the call
  returns \<open>-1\<close>) or creates the given child in the shell's own process group.
  \<^verbatim>\<open>fork_child\<close> is the process entry the child starts with.
\<close>

definition fork_parent :: "child option \<Rightarrow> state \<Rightarrow> pid_t \<times> state" where
  "fork_parent r s =
     (case r of
        None \<Rightarrow> (- 1, sys Fork s)
      | Some c \<Rightarrow>
          (cpid c, (sys Fork s)\<lparr>children := children s @ [c\<lparr>cpgid := pgid (self s)\<rparr>]\<rparr>))"

definition fork_child :: "pid_t \<Rightarrow> state \<Rightarrow> proc" where
  "fork_child newpid s = (self s)\<lparr>pid := newpid, pgid := pgid (self s), log := []\<rparr>"

text \<open>
  \<^verbatim>\<open>launch_process\<close> in the process where \<^verbatim>\<open>fork\<close> returned \<open>pid \<noteq> 0\<close>:
  \<^verbatim>\<open>setpgid(pid, pid)\<close>, then the \<^verbatim>\<open>else\<close> branch.
\<close>

definition launch_process_parent :: "string list \<Rightarrow> pid_t \<Rightarrow> state \<Rightarrow> state" where
  "launch_process_parent tokens p s =
     (let s1 = setpgid p p s
      in if program_needs_put_in_background tokens
         then put_process_in_background p s1
         else put_process_in_foreground p s1)"

text \<open>Both continuations of \<^verbatim>\<open>launch_process\<close>: the shell afterwards, and the child
  if one was created.\<close>

definition launch_process ::
  "env \<Rightarrow> string list \<Rightarrow> child option \<Rightarrow> state \<Rightarrow> state \<times> unit outcome option" where
  "launch_process e tokens r s =
     (let (p, s1) = fork_parent r s
      in (launch_process_parent tokens p s1,
          case r of
            None \<Rightarrow> None
          | Some c \<Rightarrow> Some (launch_process_child e tokens (fork_child (cpid c) s))))"

subsection \<open>Start of the session\<close>

text \<open>The process at the start of \<^verbatim>\<open>main\<close>: the globals are zero.\<close>

definition boot :: "proc \<Rightarrow> bool \<Rightarrow> pid_t \<Rightarrow> termios \<Rightarrow> state" where
  "boot p t g m =
     \<lparr>shell_is_interactive = False, shell_terminal = 0, shell_tmodes = 0, shell_pgid = 0,
      self = p, tty = t, fg = g, modes = m, children = [], blocked = 0\<rparr>"

text \<open>
  The \<^verbatim>\<open>while\<close> loop of \<^verbatim>\<open>init_shell\<close>. \<^verbatim>\<open>kill(-shell_pgid, SIGTTIN)\<close> stops
  the shell; the list holds the foreground group the terminal has each time the shell
  is continued. When the list ends the shell stays stopped (\<open>None\<close>).
\<close>

fun await_foreground :: "pid_t list \<Rightarrow> state \<Rightarrow> state option" where
  "await_foreground [] s =
     (let s1 = (sys (Tcgetpgrp (shell_terminal s)) s)\<lparr>shell_pgid := pgid (self s)\<rparr>
      in if fg s1 = shell_pgid s1 then Some s1 else None)"
| "await_foreground (g # later) s =
     (let s1 = (sys (Tcgetpgrp (shell_terminal s)) s)\<lparr>shell_pgid := pgid (self s)\<rparr>
      in if fg s1 = shell_pgid s1 then Some s1
         else await_foreground later ((sys (Kill (- shell_pgid s1)) s1)\<lparr>fg := g\<rparr>))"

definition init_shell :: "pid_t list \<Rightarrow> state \<Rightarrow> state option" where
  "init_shell later s =
     (let s1 = s\<lparr>shell_terminal := 0\<rparr>;
          s2 = s1\<lparr>shell_is_interactive := tty s1\<rparr>
      in if shell_is_interactive s2 then
           (case await_foreground later s2 of
              None \<Rightarrow> None
            | Some s3 \<Rightarrow>
                let s4 = s3\<lparr>self := signal_set SIGTTOU SIG_IGN
                                      (signal_set SIGTSTP SIG_IGN
                                         (signal_set SIGINT SIG_IGN (self s3)))\<rparr>;
                    s5 = s4\<lparr>shell_pgid := pid (self s4)\<rparr>;
                    s6 = tcsetpgrp (shell_terminal s5) (shell_pgid s5) s5
                in Some ((sys (Tcgetattr (shell_terminal s6)) s6)\<lparr>shell_tmodes := modes s6\<rparr>))
         else Some s2)"

subsection \<open>Vocabulary of the properties\<close>

text \<open>
  Sequencing, for the statements below: what follows runs only when the first part
  returns. The functions above spell the four cases out.
\<close>

fun then_do :: "'a outcome \<Rightarrow> ('a \<Rightarrow> proc \<Rightarrow> 'b outcome) \<Rightarrow> 'b outcome" where
  "then_do (Returns x p) f = f x p"
| "then_do (Replaced path av p) f = Replaced path av p"
| "then_do (Exited n p) f = Exited n p"
| "then_do (Undefined u p) f = Undefined u p"

text \<open>The redirection operators; the tokens that are no operator at all; the index of
  the first redirection operator of a command line (its length when there is none).\<close>

definition redir :: "string \<Rightarrow> bool" where
  "redir t = (t = ''<'' \<or> t = ''>'')"

definition plain :: "string \<Rightarrow> bool" where
  "plain t = (t \<noteq> ''<'' \<and> t \<noteq> ''>'' \<and> t \<noteq> ''&'')"

definition first_redirect :: "string list \<Rightarrow> nat" where
  "first_redirect ts = length (takeWhile (\<lambda>t. \<not> redir t) ts)"

text \<open>Two moments of one process: same ids and dispositions; same standard streams;
  the calls issued between them.\<close>

definition same_ids :: "proc \<Rightarrow> proc \<Rightarrow> bool" where
  "same_ids p q =
     (pid q = pid p \<and> pgid q = pgid p \<and>
      sigint q = sigint p \<and> sigtstp q = sigtstp p \<and> sigttou q = sigttou p)"

definition same_fds :: "proc \<Rightarrow> proc \<Rightarrow> bool" where
  "same_fds p q = (fd0 q = fd0 p \<and> fd1 q = fd1 p)"

definition since :: "proc \<Rightarrow> proc \<Rightarrow> call list" where
  "since p q = drop (length (log p)) (log q)"

text \<open>The path that is executed for a command: the command itself when it has a
  separator, a directory, a separator and the command otherwise.\<close>

definition exec_path :: "string \<Rightarrow> string \<Rightarrow> bool" where
  "exec_path cmd path =
     (if cmd_needs_path_resolution cmd then suffix (CHR ''/'' # cmd) path else path = cmd)"

text \<open>A call that, if it is an \<^verbatim>\<open>execv\<close>, runs the path of the first of the given
  arguments and passes that path followed by the other arguments.\<close>

definition exec_with :: "string list \<Rightarrow> call \<Rightarrow> bool" where
  "exec_with ys c =
     (case c of
        Execv path av \<Rightarrow> ys \<noteq> [] \<and> exec_path (hd ys) path \<and> av = path # tl ys
      | _ \<Rightarrow> True)"

text \<open>A piece of code that keeps ids and dispositions and only adds calls of a given
  kind, the successful \<^verbatim>\<open>execv\<close> included.\<close>

definition ext :: "(call \<Rightarrow> bool) \<Rightarrow> proc \<Rightarrow> 'a outcome \<Rightarrow> bool" where
  "ext P p r =
     (same_ids p (reached r) \<and>
      (\<exists>new. log (reached r) = log p @ new \<and> list_all P new) \<and>
      (\<forall>path av q. r = Replaced path av q \<longrightarrow> P (Execv path av)))"

text \<open>The path and the argument vector a replaced process image was started with.\<close>

definition handed :: "'a outcome \<Rightarrow> (string \<times> string list) option" where
  "handed r = (case r of Replaced path av p \<Rightarrow> Some (path, av) | _ \<Rightarrow> None)"

text \<open>The stages of \<^verbatim>\<open>execute_cmd\<close> and of the child of \<^verbatim>\<open>launch_process\<close>, by name.\<close>

definition redirect_stage :: "env \<Rightarrow> string list \<Rightarrow> proc \<Rightarrow> argv outcome" where
  "redirect_stage e ts p =
     (if program_needs_io_redirection ts
      then process_redirects_io e (tokens_get_length ts) (build_argv ts) p
      else Returns (build_argv ts) p)"

definition later_stages :: "env \<Rightarrow> string list \<Rightarrow> argv \<Rightarrow> proc \<Rightarrow> int outcome" where
  "later_stages e ts a1 p1 =
     then_do
       (if program_needs_put_in_background ts
        then cmd_line_remove_put_process_in_background_flag a1 p1
        else Returns a1 p1)
       (\<lambda>a2 p2. resolve_and_exec e a2 p2)"

definition give_up :: "int \<Rightarrow> proc \<Rightarrow> unit outcome" where
  "give_up r p1 =
     (if r = - 1 then Exited 1 (emit (Exit 1) (emit (Printf diagnostic) p1)) else Returns () p1)"

definition child_start :: "proc \<Rightarrow> proc" where
  "child_start p = init_child_process (setpgid_self p)"

definition setup_calls :: "call list" where
  "setup_calls =
     [Setpgid 0 0, Signal SIGINT SIG_DFL, Signal SIGTSTP SIG_DFL, Signal SIGTTOU SIG_DFL]"

text \<open>A child of an interactive shell, and surroundings to run it in.\<close>

definition demo_child :: proc where
  "demo_child =
     \<lparr>pid = 51, pgid = 40, sigint = SIG_IGN, sigtstp = SIG_IGN, sigttou = SIG_IGN,
      fd0 = Inherited, fd1 = Inherited, log = []\<rparr>"

definition demo_env :: env where
  "demo_env =
     \<lparr>PATH = Some ''/a:/bin'',
      can_read = (\<lambda>f. f = ''in.txt''),
      can_write = (\<lambda>f. f = ''out.txt''),
      can_exec = (\<lambda>f. f = ''/bin/cat'' \<or> f = ''/bin/ls'' \<or> f = ''/foo'')\<rparr>"




text \<open>What the shell itself keeps between two command lines: its four globals.\<close>

definition memory :: "state \<Rightarrow> bool \<times> int \<times> termios \<times> pid_t" where
  "memory s = (shell_is_interactive s, shell_terminal s, shell_tmodes s, shell_pgid s)"

text \<open>The calls the shell has issued between two of its states.\<close>

definition calls_since :: "state \<Rightarrow> state \<Rightarrow> call list" where
  "calls_since s s' = drop (length (log (self s))) (log (self s'))"

text \<open>The value \<^verbatim>\<open>fork\<close> returns in the parent.\<close>

definition fork_value :: "child option \<Rightarrow> pid_t" where
  "fork_value r = (case r of None \<Rightarrow> - 1 | Some c \<Rightarrow> cpid c)"

text \<open>
  A shell process with pid and group 40 at the start of \<^verbatim>\<open>main\<close>, on a terminal in
  whose foreground it is, and with standard input from a pipe; the sessions they become.
\<close>

definition demo_self :: proc where
  "demo_self =
     \<lparr>pid = 40, pgid = 40, sigint = SIG_DFL, sigtstp = SIG_DFL, sigttou = SIG_DFL,
      fd0 = Inherited, fd1 = Inherited, log = []\<rparr>"

definition demo_session :: state where
  "demo_session =
     \<lparr>shell_is_interactive = True, shell_terminal = 0, shell_tmodes = 7, shell_pgid = 40,
      self = demo_self\<lparr>sigint := SIG_IGN, sigtstp := SIG_IGN, sigttou := SIG_IGN,
               log := [Tcgetpgrp 0, Signal SIGINT SIG_IGN, Signal SIGTSTP SIG_IGN,
                       Signal SIGTTOU SIG_IGN, Tcsetpgrp 0 40, Tcgetattr 0]\<rparr>,
      tty = True, fg = 40, modes = 7, children = [], blocked = 0\<rparr>"

definition piped_session :: state where
  "piped_session =
     \<lparr>shell_is_interactive = False, shell_terminal = 0, shell_tmodes = 0, shell_pgid = 0,
      self = demo_self, tty = False, fg = 30, modes = 7, children = [], blocked = 0\<rparr>"

text \<open>Children as \<^verbatim>\<open>fork\<close> creates them: pid, process group (set by the kernel),
  time to run, terminal settings left behind.\<close>

definition demo_job :: "pid_t \<Rightarrow> nat \<Rightarrow> child" where
  "demo_job p t = \<lparr>cpid = p, cpgid = 0, lifetime = t, leaves = 9\<rparr>"

section \<open>Properties\<close>

subsection \<open>Auxiliary facts about lists and the stages of the child\<close>

lemma then_do_cases:
  "(case r of Returns x p \<Rightarrow> f x p
            | Replaced path av p \<Rightarrow> Replaced path av p
            | Exited n p \<Rightarrow> Exited n p
            | Undefined u p \<Rightarrow> Undefined u p) = then_do r f"
  by (cases r) simp_all

lemma build_argv_eq: "build_argv ts = map Some ts @ [None]"
proof -
  have "map (tokens_get_token ts) [0..<length ts] = map Some ts"
    by (rule nth_equalityI) (simp_all add: tokens_get_token_def)
  then show ?thesis
    by (simp add: build_argv_def tokens_get_length_def)
qed

lemma some_index: "(\<exists>i \<in> {0..<length ts}. P (ts ! i)) \<longleftrightarrow> (\<exists>t \<in> set ts. P t)"
  by (metis atLeastLessThan_iff in_set_conv_nth zero_le)

lemma needs_redirection_iff: "program_needs_io_redirection ts \<longleftrightarrow> (\<exists>t \<in> set ts. redir t)"
proof -
  have "program_needs_io_redirection ts \<longleftrightarrow> (\<exists>i \<in> {0..<length ts}. redir (ts ! i))"
    by (simp add: program_needs_io_redirection_def tokens_get_length_def
        tokens_get_token_def redir_def)
  then show ?thesis by (simp only: some_index)
qed

lemma needs_background_iff: "program_needs_put_in_background ts \<longleftrightarrow> ''&'' \<in> set ts"
proof -
  have "program_needs_put_in_background ts \<longleftrightarrow> (\<exists>i \<in> {0..<length ts}. ts ! i = ''&'')"
    by (simp add: program_needs_put_in_background_def tokens_get_length_def
        tokens_get_token_def)
  also have "\<dots> \<longleftrightarrow> (\<exists>t \<in> set ts. t = ''&'')" by (rule some_index)
  finally show ?thesis by simp
qed

lemma first_index:
  assumes "i < length ts" "\<forall>j<i. P (ts ! j)" "\<not> P (ts ! i)"
  shows "length (takeWhile P ts) = i"
proof -
  have "takeWhile P ts = take i ts"
    using assms by (intro takeWhile_eq_take_P_nth) auto
  then show ?thesis using assms by simp
qed

lemma no_index:
  assumes "\<forall>j<length ts. P (ts ! j)"
  shows "length (takeWhile P ts) = length ts"
proof -
  have "\<forall>x \<in> set ts. P x"
    using assms by (auto simp: in_set_conv_nth)
  then show ?thesis
    by (induction ts) simp_all
qed

lemma redirects_from:
  assumes "i \<le> length ts" "\<forall>j<i. \<not> redir (ts ! j)"
  shows "process_redirects_io_from e (length ts) i (map Some ts @ [None]) p =
           (let k = first_redirect ts
            in if k < length ts then redirect e (ts ! k = ''<'') k (map Some ts @ [None]) p
               else Returns (map Some ts @ [None]) p)"
  using assms
proof (induction "length ts - i" arbitrary: i)
  case 0
  then have i: "i = length ts" by simp
  with 0 have "first_redirect ts = length ts"
    unfolding first_redirect_def by (intro no_index) simp
  then show ?case
    using i by (simp add: process_redirects_io_from.simps)
next
  case (Suc n)
  then have lt: "i < length ts" by simp
  have nth: "(map Some ts @ [None]) ! i = Some (ts ! i)"
    using lt by (simp add: nth_append)
  show ?case
  proof (cases "redir (ts ! i)")
    case True
    have k: "first_redirect ts = i"
      unfolding first_redirect_def using lt Suc.prems(2) True by (intro first_index) auto
    show ?thesis
      using True lt nth k
      by (subst process_redirects_io_from.simps) (auto simp: redir_def)
  next
    case False
    have inv: "\<forall>j<Suc i. \<not> redir (ts ! j)"
      using Suc.prems(2) False by (auto simp: less_Suc_eq)
    have "process_redirects_io_from e (length ts) (Suc i) (map Some ts @ [None]) p =
           (let k = first_redirect ts
            in if k < length ts then redirect e (ts ! k = ''<'') k (map Some ts @ [None]) p
               else Returns (map Some ts @ [None]) p)"
      using Suc.hyps(1) [of "Suc i"] Suc.hyps(2) lt inv by simp
    then show ?thesis
      using False lt nth
      by (subst process_redirects_io_from.simps) (auto simp: redir_def)
  qed
qed

lemma cut_shape:
  assumes "k < length ts"
  shows "(map Some ts @ rest)[k := None] = map Some (take k ts) @ None # (map Some (drop (Suc k) ts) @ rest)"
  using assms by (simp add: list_update_append upd_conv_take_nth_drop take_map drop_map)

lemma view_shape: "argv_view (map Some ys @ None # rest) = ys"
  unfolding argv_view_def by (induction ys) simp_all

lemma remove_flag_shape:
  assumes "i \<le> length xs" "\<forall>j<i. xs ! j \<noteq> ''&''"
  shows "remove_flag_from i (map Some xs @ None # rest) p =
           Returns (let m = length (takeWhile (\<lambda>t. t \<noteq> ''&'') xs)
                    in if m < length xs then (map Some xs @ None # rest)[m := None]
                       else map Some xs @ None # rest) p"
  using assms
proof (induction "length xs - i" arbitrary: i)
  case 0
  then have i: "i = length xs" by simp
  with 0 have "length (takeWhile (\<lambda>t. t \<noteq> ''&'') xs) = length xs"
    by (intro no_index) simp
  then show ?case
    using i by (subst remove_flag_from.simps) (simp add: nth_append)
next
  case (Suc n)
  then have lt: "i < length xs" by simp
  have nth: "(map Some xs @ None # rest) ! i = Some (xs ! i)"
    using lt by (simp add: nth_append)
  show ?case
  proof (cases "xs ! i = ''&''")
    case True
    have m: "length (takeWhile (\<lambda>t. t \<noteq> ''&'') xs) = i"
      using lt Suc.prems(2) True by (intro first_index) auto
    show ?thesis
      using True lt nth m
      by (subst remove_flag_from.simps) simp
  next
    case False
    have inv: "\<forall>j<Suc i. xs ! j \<noteq> ''&''"
      using Suc.prems(2) False by (auto simp: less_Suc_eq)
    show ?thesis
      using Suc.hyps(1) [of "Suc i"] Suc.hyps(2) lt inv False nth
      by (subst remove_flag_from.simps) simp
  qed
qed

lemma takeWhile_twice:
  "takeWhile P (takeWhile Q xs) = takeWhile (\<lambda>x. Q x \<and> P x) xs"
  by (induction xs) auto

lemma ext_returns: "ext P p (Returns x p)"
  by (simp add: ext_def same_ids_def)

lemma ext_undefined: "ext P p (Undefined u p)"
  by (simp add: ext_def same_ids_def)

lemma ext_trans: "ext P p (Returns x q) \<Longrightarrow> ext P q r \<Longrightarrow> ext P p r"
  by (auto simp: ext_def same_ids_def)

lemma ext_then_do:
  assumes "ext P p r"
      and "\<And>x q. r = Returns x q \<Longrightarrow> ext P q (f x q)"
  shows "ext P p (then_do r f)"
proof (cases r)
  case (Returns x q)
  with assms show ?thesis by (auto intro: ext_trans)
qed (use assms in \<open>simp_all add: ext_def\<close>)

lemma ext_since: "ext P p r \<Longrightarrow> c \<in> set (since p (reached r)) \<Longrightarrow> P c"
  by (auto simp: ext_def since_def list_all_iff)

lemma ext_redirect: "ext (exec_with ys) p (redirect e b i a p)"
proof -
  have 1: "\<And>n m. exec_with ys (Fopen n m)" and 2: "\<And>n m. exec_with ys (Dup2 n m)"
    by (simp_all add: exec_with_def)
  show ?thesis
    unfolding redirect_def
    by (auto simp: ext_def same_ids_def emit_def 1 2 Let_def split: option.splits)
qed

lemma ext_redirects: "ext (exec_with ys) p (process_redirects_io_from e argc i a p)"
proof (induction e argc i a p rule: process_redirects_io_from.induct)
  case (1 e argc i a p)
  show ?case
    using 1 by (subst process_redirects_io_from.simps)
      (auto simp: ext_returns ext_undefined ext_redirect split: option.splits)
qed

lemma view_upd0: "a \<noteq> [] \<Longrightarrow> a ! 0 = Some c \<Longrightarrow> argv_view (a[0 := Some x]) = x # tl (argv_view a)"
  by (cases a) (simp_all add: argv_view_def)

lemma view_hd: "a \<noteq> [] \<Longrightarrow> a ! 0 = Some c \<Longrightarrow> argv_view a = c # tl (argv_view a)"
  by (cases a) (simp_all add: argv_view_def)

lemma ext_execv:
  "ext (exec_with ys) p (execv e path a p) \<and> same_fds p (reached (execv e path a p))"
  if "argv_view a = path # tl ys" "ys \<noteq> []" "exec_path (hd ys) path"
  using that by (simp add: execv_def Let_def ext_def same_ids_def same_fds_def emit_def exec_with_def)

lemma restore0: "a \<noteq> [] \<Longrightarrow> a[0 := x, 0 := a ! 0] = a"
  by (cases a) simp_all

lemma ext_resolve_loop:
  "a \<noteq> [] \<Longrightarrow> a ! 0 = Some cmd \<Longrightarrow> cmd_needs_path_resolution cmd \<Longrightarrow>
     ext (exec_with (argv_view a)) p (resolve_loop e path_env a p) \<and>
     same_fds p (reached (resolve_loop e path_env a p))"
proof (induction e path_env a p rule: resolve_loop.induct)
  case (1 e path_env a p)
  show ?case
  proof (cases "strsep path_env CHR '':''")
    case (Pair t rest)
    show ?thesis
    proof (cases t)
      case None
      then show ?thesis
        using Pair by (subst (1 2) resolve_loop.simps) (simp add: ext_returns same_fds_def)
    next
      case (Some each_dir)
      let ?full = "each_dir @ ''/'' @ cmd"
      let ?a1 = "a[0 := Some ?full]"
      show ?thesis
      proof (cases "256 \<le> length ?full")
        case True
        then show ?thesis
          using Pair Some "1.prems"
          by (subst (1 2) resolve_loop.simps) (simp add: ext_undefined same_fds_def)
      next
        case False
        have v: "argv_view ?a1 = ?full # tl (argv_view a)"
          using "1.prems"(1,2) by (rule view_upd0)
        have hd: "argv_view a = cmd # tl (argv_view a)"
          using "1.prems"(1,2) by (rule view_hd)
        then have ne: "argv_view a \<noteq> []" and cmd: "hd (argv_view a) = cmd"
          by (metis list.distinct(1), metis list.sel(1))
        have "exec_path (hd (argv_view a)) ?full"
          unfolding cmd using "1.prems"(3) by (simp add: exec_path_def suffix_def)
        note ex = ext_execv [OF v ne this, of p e]
        have rst: "?a1[0 := a ! 0] = a"
          using "1.prems"(1) by (rule restore0)
        show ?thesis
        proof (cases "execv e ?full ?a1 p")
          case (Returns r p1)
          have ih: "ext (exec_with (argv_view a)) p1 (resolve_loop e rest a p1) \<and>
                    same_fds p1 (reached (resolve_loop e rest a p1))"
            using "1.IH" [OF Pair [symmetric] Some "1.prems"(2) refl False refl refl Returns]
              "1.prems" rst by simp
          have eq: "resolve_loop e path_env a p = resolve_loop e rest a p1"
            using Pair Some "1.prems" False Returns rst
            by (subst resolve_loop.simps) simp
          show ?thesis
            using ex ih Returns unfolding eq
            by (auto intro: ext_trans simp: same_fds_def)
        next
          case (Replaced path av p1)
          have eq: "resolve_loop e path_env a p = Replaced path av p1"
            using Pair Some "1.prems" False Replaced
            by (subst resolve_loop.simps) simp
          show ?thesis using ex Replaced unfolding eq by simp
        next
          case (Exited n p1)
          have eq: "resolve_loop e path_env a p = Exited n p1"
            using Pair Some "1.prems" False Exited
            by (subst resolve_loop.simps) simp
          show ?thesis using ex Exited unfolding eq by simp
        next
          case (Undefined u p1)
          have eq: "resolve_loop e path_env a p = Undefined u p1"
            using Pair Some "1.prems" False Undefined
            by (subst resolve_loop.simps) simp
          show ?thesis using ex Undefined unfolding eq by simp
        qed
      qed
    qed
  qed
qed

lemma ext_resolve:
  "a \<noteq> [] \<Longrightarrow>
     ext (exec_with (argv_view a)) p (resolve_and_exec e a p) \<and>
     same_fds p (reached (resolve_and_exec e a p))"
proof (cases "a ! 0")
  case None
  then show ?thesis by (simp add: resolve_and_exec_def ext_undefined same_fds_def)
next
  case (Some cmd)
  assume ne: "a \<noteq> []"
  show ?thesis
  proof (cases "cmd_needs_path_resolution cmd")
    case True
    then show ?thesis
      using Some ext_resolve_loop [OF ne Some True] by (simp add: resolve_and_exec_def)
  next
    case False
    have hd: "argv_view a = cmd # tl (argv_view a)"
      using ne Some by (rule view_hd)
    then have nev: "argv_view a \<noteq> []" and cmd: "hd (argv_view a) = cmd"
      by (metis list.distinct(1), metis list.sel(1))
    have "exec_path (hd (argv_view a)) cmd"
      unfolding cmd using False by (simp add: exec_path_def)
    from ext_execv [OF hd nev this] show ?thesis
      using Some False by (simp add: resolve_and_exec_def)
  qed
qed

lemma plain_split: "plain t \<longleftrightarrow> \<not> redir t \<and> t \<noteq> ''&''"
  by (auto simp: plain_def redir_def)

lemma length_takeWhile_all: "length (takeWhile P xs) = length xs \<Longrightarrow> takeWhile P xs = xs"
  by (metis takeWhile_eq_take take_all order_refl)

lemma redirect_stage_shape:
  assumes "(if program_needs_io_redirection ts
            then process_redirects_io e (tokens_get_length ts) (build_argv ts) p
            else Returns (build_argv ts) p) = Returns a1 p1"
  shows "\<exists>rest. a1 = map Some (takeWhile (\<lambda>t. \<not> redir t) ts) @ None # rest"
proof (cases "first_redirect ts < length ts")
  case True
  let ?k = "first_redirect ts"
  have tk: "take ?k ts = takeWhile (\<lambda>t. \<not> redir t) ts"
    unfolding first_redirect_def by (rule takeWhile_eq_take [symmetric])
  have "\<not> (\<forall>t \<in> set ts. \<not> redir t)"
  proof
    assume "\<forall>t \<in> set ts. \<not> redir t"
    then have "takeWhile (\<lambda>t. \<not> redir t) ts = ts" by (simp add: takeWhile_eq_all_conv)
    with True show False by (simp add: first_redirect_def)
  qed
  then have needs: "program_needs_io_redirection ts"
    by (simp add: needs_redirection_iff)
  have "redirect e (ts ! ?k = ''<'') ?k (map Some ts @ [None]) p = Returns a1 p1"
    using assms needs True redirects_from [of 0 ts e p]
    by (simp add: process_redirects_io_def tokens_get_length_def build_argv_eq Let_def)
  then have "a1 = (map Some ts @ [None])[?k := None]"
    by (auto simp: redirect_def Let_def split: option.splits if_splits)
  then show ?thesis
    using cut_shape [OF True, of "[None]"] tk by simp
next
  case False
  then have "length (takeWhile (\<lambda>t. \<not> redir t) ts) = length ts"
    using length_takeWhile_le [of "\<lambda>t. \<not> redir t" ts] by (simp add: first_redirect_def)
  then have all: "takeWhile (\<lambda>t. \<not> redir t) ts = ts"
    by (rule length_takeWhile_all)
  have "a1 = map Some ts @ [None]"
    using assms False redirects_from [of 0 ts e p]
    by (simp add: process_redirects_io_def tokens_get_length_def build_argv_eq Let_def
        split: if_splits)
  then show ?thesis by (simp add: all)
qed

lemma background_stage_shape:
  assumes "set xs \<subseteq> set ts"
  shows "\<exists>rest'. (if program_needs_put_in_background ts
                  then cmd_line_remove_put_process_in_background_flag (map Some xs @ None # rest) p
                  else Returns (map Some xs @ None # rest) p)
               = Returns (map Some (takeWhile (\<lambda>t. t \<noteq> ''&'') xs) @ None # rest') p"
proof (cases "program_needs_put_in_background ts")
  case True
  let ?m = "length (takeWhile (\<lambda>t. t \<noteq> ''&'') xs)"
  have tk: "take ?m xs = takeWhile (\<lambda>t. t \<noteq> ''&'') xs"
    by (rule takeWhile_eq_take [symmetric])
  show ?thesis
  proof (cases "?m < length xs")
    case lt: True
    show ?thesis
      using True lt remove_flag_shape [of 0 xs rest p] cut_shape [OF lt, of "None # rest"] tk
      by (simp add: cmd_line_remove_put_process_in_background_flag_def)
  next
    case ge: False
    then have "?m = length xs"
      using length_takeWhile_le [of "\<lambda>t. t \<noteq> ''&''" xs] by simp
    then have tw: "takeWhile (\<lambda>t. t \<noteq> ''&'') xs = xs"
      by (rule length_takeWhile_all)
    show ?thesis
      using True ge remove_flag_shape [of 0 xs rest p]
      by (simp add: cmd_line_remove_put_process_in_background_flag_def tw)
  qed
next
  case False
  then have "''&'' \<notin> set xs"
    using assms by (auto simp: needs_background_iff)
  then have tw: "takeWhile (\<lambda>t. t \<noteq> ''&'') xs = xs"
    by (induction xs) auto
  show ?thesis using False by (simp add: tw)
qed

lemma takeWhile_plain:
  "takeWhile (\<lambda>t. t \<noteq> ''&'') (takeWhile (\<lambda>t. \<not> redir t) ts) = takeWhile plain ts"
  by (simp add: takeWhile_twice plain_split [abs_def])

lemma ext_execute_cmd: "ext (exec_with (takeWhile plain ts)) p (execute_cmd e ts p)"
proof -
  let ?P = "exec_with (takeWhile plain ts)"
  define r1 where "r1 = (if program_needs_io_redirection ts
            then process_redirects_io e (tokens_get_length ts) (build_argv ts) p
            else Returns (build_argv ts) p)"
  define f where "f = (\<lambda>a1 p1. then_do
                (if program_needs_put_in_background ts
                 then cmd_line_remove_put_process_in_background_flag a1 p1
                 else Returns a1 p1)
                (\<lambda>a2 p2. resolve_and_exec e a2 p2))"
  have e1: "ext ?P p r1"
    unfolding r1_def by (simp add: process_redirects_io_def ext_redirects ext_returns)
  have ex: "execute_cmd e ts p = then_do r1 f"
    unfolding execute_cmd_def r1_def f_def by (simp add: Let_def then_do_cases)
  have "ext ?P p1 (f a1 p1)" if ret: "r1 = Returns a1 p1" for a1 p1
  proof -
    obtain rest where a1: "a1 = map Some (takeWhile (\<lambda>t. \<not> redir t) ts) @ None # rest"
      using redirect_stage_shape [of ts e p a1 p1] ret unfolding r1_def by auto
    have "set (takeWhile (\<lambda>t. \<not> redir t) ts) \<subseteq> set ts"
      by (auto dest: set_takeWhileD)
    from background_stage_shape [OF this, of rest p1]
    obtain rest' where
      "(if program_needs_put_in_background ts
        then cmd_line_remove_put_process_in_background_flag a1 p1
        else Returns a1 p1) = Returns (map Some (takeWhile plain ts) @ None # rest') p1"
      unfolding a1 takeWhile_plain by blast
    then have "f a1 p1 = resolve_and_exec e (map Some (takeWhile plain ts) @ None # rest') p1"
      unfolding f_def by simp
    then show ?thesis
      using ext_resolve [of "map Some (takeWhile plain ts) @ None # rest'" p1 e]
      by (simp add: view_shape)
  qed
  with e1 show ?thesis unfolding ex by (rule ext_then_do)
qed

lemma ext_launch_process_child:
  "ext (exec_with (takeWhile plain ts)) (init_child_process (setpgid_self p))
     (launch_process_child e ts p)"
  unfolding launch_process_child_def then_do_cases
proof (rule ext_then_do [OF ext_execute_cmd])
  fix x :: int and q
  show "ext (exec_with (takeWhile plain ts)) q
          (if x = - 1 then Exited 1 (emit (Exit 1) (emit (Printf diagnostic) q))
           else Returns () q)"
    by (simp add: ext_def same_ids_def emit_def exec_with_def)
qed

lemma child_setup:
  "pid (init_child_process (setpgid_self p)) = pid p"
  "pgid (init_child_process (setpgid_self p)) = pid p"
  "sigint (init_child_process (setpgid_self p)) = SIG_DFL"
  "sigtstp (init_child_process (setpgid_self p)) = SIG_DFL"
  "sigttou (init_child_process (setpgid_self p)) = SIG_DFL"
  "log (init_child_process (setpgid_self p)) =
     log p @ [Setpgid 0 0, Signal SIGINT SIG_DFL, Signal SIGTSTP SIG_DFL, Signal SIGTTOU SIG_DFL]"
  by (simp_all add: init_child_process_def setpgid_self_def signal_set_def emit_def)

lemma execute_cmd_stages:
  "execute_cmd e ts p = then_do (redirect_stage e ts p) (later_stages e ts)"
  unfolding execute_cmd_def redirect_stage_def later_stages_def
  by (simp add: Let_def then_do_cases)

lemma launch_child_stages:
  "launch_process_child e ts p =
     then_do (then_do (redirect_stage e ts (child_start p)) (later_stages e ts)) give_up"
  unfolding launch_process_child_def execute_cmd_stages child_start_def give_up_def
    then_do_cases ..

lemma redirect_stage_eq:
  assumes "first_redirect ts < length ts"
  shows "redirect_stage e ts p =
           redirect e (ts ! first_redirect ts = ''<'') (first_redirect ts) (map Some ts @ [None]) p"
proof -
  have "\<not> (\<forall>t \<in> set ts. \<not> redir t)"
  proof
    assume "\<forall>t \<in> set ts. \<not> redir t"
    then have "takeWhile (\<lambda>t. \<not> redir t) ts = ts" by (simp add: takeWhile_eq_all_conv)
    with assms show False by (simp add: first_redirect_def)
  qed
  then have "program_needs_io_redirection ts"
    by (simp add: needs_redirection_iff)
  then show ?thesis
    using assms redirects_from [of 0 ts e p]
    by (simp add: redirect_stage_def process_redirects_io_def tokens_get_length_def
        build_argv_eq Let_def)
qed




lemma child_start_facts:
  "fd0 (child_start p) = fd0 p" "fd1 (child_start p) = fd1 p"
  "log (child_start p) = log p @ setup_calls"
  by (simp_all add: child_start_def init_child_process_def setpgid_self_def signal_set_def
      emit_def setup_calls_def)

lemma since_child:
  assumes "ext P (child_start p) r"
  shows "\<exists>new. since p (reached r) = setup_calls @ new \<and> list_all P new"
  using assms by (auto simp: ext_def since_def child_start_facts)

lemma ext_child: "ext (exec_with (takeWhile plain ts)) (child_start p) (launch_process_child e ts p)"
  unfolding child_start_def by (rule ext_launch_process_child)


lemmas model_defs = launch_process_child_def execute_cmd_def resolve_and_exec_def execv_def
  process_redirects_io_def redirect_def cmd_line_remove_put_process_in_background_flag_def
  needs_redirection_iff redir_def needs_background_iff
  cmd_needs_path_resolution_def build_argv_def tokens_get_length_def tokens_get_token_def
  argv_view_def init_child_process_def setpgid_self_def signal_set_def emit_def
  process_redirects_io_from.simps remove_flag_from.simps resolve_loop.simps Let_def

subsection \<open>The child before exec\<close>

text \<open>
  Claim C7. Whatever the command line, the environment and the process entry the child
  starts with (in particular one that ignores the three job-control signals, as the
  child of an interactive shell does), the child of \<^verbatim>\<open>launch_process\<close> keeps its pid,
  is in the process group named after its own pid, and has the default disposition for
  \<^verbatim>\<open>SIGINT\<close>, \<^verbatim>\<open>SIGTSTP\<close> and \<^verbatim>\<open>SIGTTOU\<close>, at whatever point it is
  replaced, exits or stops being defined. Its first four calls are \<^verbatim>\<open>setpgid(0, 0)\<close>
  and the three \<^verbatim>\<open>signal\<close> calls: every \<^verbatim>\<open>execv\<close> comes after them.
\<close>

theorem child_group_and_signals_before_exec:
  "let q = reached (launch_process_child e tokens p)
   in pid q = pid p \<and> pgid q = pid p \<and>
      sigint q = SIG_DFL \<and> sigtstp q = SIG_DFL \<and> sigttou q = SIG_DFL \<and>
      (\<exists>later. log q = log p @ [Setpgid 0 0, Signal SIGINT SIG_DFL, Signal SIGTSTP SIG_DFL,
                                 Signal SIGTTOU SIG_DFL] @ later)"
  using ext_launch_process_child [of tokens p e]
  by (auto simp: ext_def same_ids_def child_setup Let_def)

subsection \<open>The argument vector of exec\<close>

text \<open>
  Claim C10, amended. Every \<^verbatim>\<open>execv\<close> the child attempts, and the one that
  replaces it, is given the tokens before the first \<^verbatim>\<open><\<close>, \<^verbatim>\<open>>\<close> or
  \<^verbatim>\<open>&\<close> token (a prefix of the command line, and not empty), with slot 0 holding
  the path that is executed: token 0 itself when it contains a separator, a candidate
  ending in a separator and token 0 otherwise. No token at or after the first operator
  is handed over.
\<close>

theorem exec_argv_is_cut_prefix_with_path:
  assumes "Execv path av \<in> set (since p (reached (launch_process_child e tokens p))) \<or>
           handed (launch_process_child e tokens p) = Some (path, av)"
  shows "takeWhile plain tokens \<noteq> [] \<and>
         prefix (takeWhile plain tokens) tokens \<and>
         av = path # tl (takeWhile plain tokens) \<and>
         exec_path (hd tokens) path"
proof -
  let ?r = "launch_process_child e tokens p"
  note ex = ext_child [of tokens p e]
  have "exec_with (takeWhile plain tokens) (Execv path av)"
    using assms
  proof
    assume mem: "Execv path av \<in> set (since p (reached ?r))"
    from since_child [OF ex] obtain new where
      new: "since p (reached ?r) = setup_calls @ new" "list_all (exec_with (takeWhile plain tokens)) new"
      by blast
    from mem new(1) have "Execv path av \<in> set new"
      by (auto simp: setup_calls_def)
    with new(2) show ?thesis by (simp add: list_all_iff)
  next
    assume "handed ?r = Some (path, av)"
    then obtain q where "?r = Replaced path av q"
      by (auto simp: handed_def split: outcome.splits)
    with ex show ?thesis by (simp add: ext_def)
  qed
  then have ne: "takeWhile plain tokens \<noteq> []"
    and pa: "exec_path (hd (takeWhile plain tokens)) path"
    and av: "av = path # tl (takeWhile plain tokens)"
    by (simp_all add: exec_with_def)
  have "hd (takeWhile plain tokens) = hd tokens"
    using ne by (cases tokens) (auto split: if_splits)
  with ne pa av show ?thesis
    by (simp add: takeWhile_is_prefix)
qed

text \<open>Claim C10: the amended statement at \<^verbatim>\<open>ls -l & x > out.txt\<close>.\<close>

theorem exec_argv_is_cut_prefix_with_path_witness:
  "handed (launch_process_child demo_env [''ls'', ''-l'', ''&'', ''x'', ''>'', ''out.txt''] demo_child)
     = Some (''/bin/ls'', [''/bin/ls'', ''-l'']) \<and>
   takeWhile plain [''ls'', ''-l'', ''&'', ''x'', ''>'', ''out.txt''] = [''ls'', ''-l''] \<and>
   [''/bin/ls'', ''-l''] = ''/bin/ls'' # tl (takeWhile plain [''ls'', ''-l'', ''&'', ''x'', ''>'', ''out.txt''])"
proof -
  let ?ts = "[''ls'', ''-l'', ''&'', ''x'', ''>'', ''out.txt'']"
  have h: "handed (launch_process_child demo_env ?ts demo_child)
             = Some (''/bin/ls'', [''/bin/ls'', ''-l''])"
    by (simp add: model_defs demo_env_def demo_child_def handed_def)
  have t: "takeWhile plain ?ts = [''ls'', ''-l'']"
    by (simp add: plain_def)
  from exec_argv_is_cut_prefix_with_path [OF disjI2, OF h]
  have "[''/bin/ls'', ''-l''] = ''/bin/ls'' # tl (takeWhile plain ?ts)"
    by blast
  with h t show ?thesis by blast
qed

text \<open>Claim C10 as stated fails at \<^verbatim>\<open>ls -l\<close>: the vector handed to exec is not a
  prefix of the tokens, because slot 0 is the candidate path.\<close>

theorem exec_argv_slot0_is_not_the_token:
  "handed (launch_process_child demo_env [''ls'', ''-l''] demo_child)
     = Some (''/bin/ls'', [''/bin/ls'', ''-l'']) \<and>
   \<not> prefix [''/bin/ls'', ''-l''] [''ls'', ''-l'']"
proof -
  have "handed (launch_process_child demo_env [''ls'', ''-l''] demo_child)
     = Some (''/bin/ls'', [''/bin/ls'', ''-l''])"
    by (simp add: model_defs demo_env_def demo_child_def handed_def)
  moreover have "\<not> prefix [''/bin/ls'', ''-l''] [''ls'', ''-l'']"
    by simp
  ultimately show ?thesis by blast
qed

subsection \<open>Redirection\<close>




text \<open>
  Claim C4, evaluated. When the file named after the first redirection operator cannot
  be opened, the child's calls are the four of its setup and the \<^verbatim>\<open>fopen\<close>,
  and then the null stream reaches \<^verbatim>\<open>fileno\<close>: no diagnostic is written and
  there is no \<^verbatim>\<open>exit\<close>; what the process does next is not defined by the code.
\<close>

theorem unopened_redirect_target_is_undefined:
  assumes "Suc (first_redirect tokens) < length tokens"
      and "\<not> (if tokens ! first_redirect tokens = ''<''
               then can_read e (tokens ! Suc (first_redirect tokens))
               else can_write e (tokens ! Suc (first_redirect tokens)))"
  shows "\<exists>q. launch_process_child e tokens p = Undefined NullStream q \<and>
             since p q = setup_calls @
               [Fopen (tokens ! Suc (first_redirect tokens))
                  (if tokens ! first_redirect tokens = ''<'' then ''r'' else ''w'')]"
proof -
  let ?k = "first_redirect tokens"
  have k: "?k < length tokens" using assms(1) by simp
  have nth: "(map Some tokens @ [None]) ! (?k + 1) = Some (tokens ! Suc ?k)"
    using assms(1) by (simp add: nth_append)
  let ?q = "emit (Fopen (tokens ! Suc ?k) (if tokens ! ?k = ''<'' then ''r'' else ''w''))
              (child_start p)"
  have "redirect_stage e tokens (child_start p) = Undefined NullStream ?q"
    unfolding redirect_stage_eq [OF k] redirect_def nth using assms(2)
    by (simp add: Let_def)
  then have "launch_process_child e tokens p = Undefined NullStream ?q"
    unfolding launch_child_stages by simp
  moreover have "since p ?q = setup_calls @
               [Fopen (tokens ! Suc ?k) (if tokens ! ?k = ''<'' then ''r'' else ''w'')]"
    by (simp add: since_def emit_def child_start_facts)
  ultimately show ?thesis by blast
qed

text \<open>Claim C4: the evaluation at \<^verbatim>\<open>cat < missing.txt\<close>.\<close>

theorem unopened_redirect_target_is_undefined_witness:
  "Suc (first_redirect [''cat'', ''<'', ''missing.txt'']) < length [''cat'', ''<'', ''missing.txt''] \<and>
   \<not> can_read demo_env ''missing.txt'' \<and>
   (\<exists>q. launch_process_child demo_env [''cat'', ''<'', ''missing.txt''] demo_child
          = Undefined NullStream q \<and>
        since demo_child q = setup_calls @ [Fopen ''missing.txt'' ''r''])"
proof -
  let ?ts = "[''cat'', ''<'', ''missing.txt'']"
  have k: "first_redirect ?ts = 1"
    by (simp add: first_redirect_def redir_def)
  have h1: "Suc (first_redirect ?ts) < length ?ts"
    unfolding k by simp
  have r: "\<not> can_read demo_env ''missing.txt''"
    by (simp add: demo_env_def)
  have h2: "\<not> (if ?ts ! first_redirect ?ts = ''<''
               then can_read demo_env (?ts ! Suc (first_redirect ?ts))
               else can_write demo_env (?ts ! Suc (first_redirect ?ts)))"
    unfolding k using r by simp
  from unopened_redirect_target_is_undefined [OF h1 h2, of demo_child]
  have "\<exists>q. launch_process_child demo_env ?ts demo_child = Undefined NullStream q \<and>
        since demo_child q = setup_calls @ [Fopen ''missing.txt'' ''r'']"
    unfolding k by simp
  with h1 r show ?thesis by blast
qed

subsection \<open>Path resolution\<close>





text \<open>
  The resolution stage is what \<^verbatim>\<open>execute_cmd\<close> ends with; on a command line without
  operator tokens it is all that \<^verbatim>\<open>execute_cmd\<close> does, on the argument array as
  built.
\<close>

lemma execute_cmd_without_operators:
  assumes "\<forall>t \<in> set tokens. plain t"
  shows "execute_cmd e tokens p = resolve_and_exec e (map Some tokens @ [None]) p"
proof -
  have "\<not> program_needs_io_redirection tokens"
    using assms by (auto simp: needs_redirection_iff plain_def redir_def)
  moreover have "\<not> program_needs_put_in_background tokens"
    using assms by (auto simp: needs_background_iff plain_def)
  ultimately show ?thesis
    by (simp add: execute_cmd_def build_argv_eq Let_def)
qed







subsection \<open>Auxiliary facts about the parent\<close>

lemmas parent_defs = launch_process_def launch_process_parent_def fork_parent_def
  fork_child_def setpgid_def put_process_in_foreground_def put_process_in_background_def
  tcsetpgrp_def tcsetattr_def wait_any_def sys_def emit_def in_session_def
  needs_background_iff Let_def boot_def init_shell_def signal_set_def memory_def
  calls_since_def fork_value_def

lemma demo_session_starts: "init_shell [] (boot demo_self True 40 7) = Some demo_session"
  by (simp add: parent_defs demo_session_def demo_self_def)

lemma piped_session_starts: "init_shell later (boot demo_self False 30 7) = Some piped_session"
  by (simp add: parent_defs piped_session_def demo_self_def)

lemma fork_parent_value: "fst (fork_parent r s) = fork_value r"
  by (simp add: fork_parent_def fork_value_def split: option.splits)

lemma fork_parent_keeps:
  "memory (snd (fork_parent r s)) = memory s"
  "tty (snd (fork_parent r s)) = tty s"
  "fg (snd (fork_parent r s)) = fg s"
  "modes (snd (fork_parent r s)) = modes s"
  "blocked (snd (fork_parent r s)) = blocked s"
  "log (self (snd (fork_parent r s))) = log (self s) @ [Fork]"
  by (simp_all add: fork_parent_def memory_def sys_def emit_def split: option.splits)

lemma setpgid_keeps:
  "memory (setpgid p g s) = memory s"
  "tty (setpgid p g s) = tty s"
  "fg (setpgid p g s) = fg s"
  "modes (setpgid p g s) = modes s"
  "blocked (setpgid p g s) = blocked s"
  "log (self (setpgid p g s)) = log (self s) @ [Setpgid p g]"
  by (simp_all add: setpgid_def memory_def sys_def emit_def Let_def)

lemma launch_process_parts:
  "fst (launch_process e tokens r s) =
     launch_process_parent tokens (fork_value r) (snd (fork_parent r s))"
  by (cases r) (simp_all add: launch_process_def fork_parent_def fork_value_def)

lemma wait_any_keeps:
  "memory (snd (wait_any s)) = memory s"
  "tty (snd (wait_any s)) = tty s"
  "fg (snd (wait_any s)) = fg s"
  "\<not> tty s \<Longrightarrow> modes (snd (wait_any s)) = modes s"
  "log (self (snd (wait_any s))) = log (self s) @ [Wait]"
  by (simp_all add: wait_any_def memory_def sys_def emit_def Let_def split: option.splits)

lemma tcsetpgrp_keeps:
  "memory (tcsetpgrp fd g s) = memory s"
  "tty (tcsetpgrp fd g s) = tty s"
  "\<not> tty s \<Longrightarrow> fg (tcsetpgrp fd g s) = fg s"
  "modes (tcsetpgrp fd g s) = modes s"
  "log (self (tcsetpgrp fd g s)) = log (self s) @ [Tcsetpgrp fd g]"
  by (simp_all add: tcsetpgrp_def memory_def sys_def emit_def Let_def)

lemma tcsetattr_keeps:
  "memory (tcsetattr fd m s) = memory s"
  "tty (tcsetattr fd m s) = tty s"
  "fg (tcsetattr fd m s) = fg s"
  "\<not> tty s \<Longrightarrow> modes (tcsetattr fd m s) = modes s"
  "log (self (tcsetattr fd m s)) = log (self s) @ [Tcsetattr fd m]"
  by (simp_all add: tcsetattr_def memory_def sys_def emit_def Let_def)

lemma memory_fields:
  "memory s' = memory s \<Longrightarrow>
     shell_terminal s' = shell_terminal s \<and> shell_pgid s' = shell_pgid s \<and>
     shell_tmodes s' = shell_tmodes s"
  by (simp add: memory_def)

lemma foreground_calls:
  "log (self (put_process_in_foreground p s)) =
     log (self s) @ [Tcsetpgrp (shell_terminal s) p, Wait,
                     Tcsetpgrp (shell_terminal s) (shell_pgid s),
                     Tcsetattr (shell_terminal s) (shell_tmodes s)]"
proof -
  let ?s1 = "tcsetpgrp (shell_terminal s) p s"
  let ?s2 = "snd (wait_any ?s1)"
  have m2: "memory ?s2 = memory s"
    by (simp add: wait_any_keeps tcsetpgrp_keeps)
  let ?s3 = "tcsetpgrp (shell_terminal ?s2) (shell_pgid ?s2) ?s2"
  have m3: "memory ?s3 = memory s"
    by (simp add: tcsetpgrp_keeps m2)
  show ?thesis
    unfolding put_process_in_foreground_def Let_def
    using memory_fields [OF m2] memory_fields [OF m3]
    by (simp add: tcsetattr_keeps tcsetpgrp_keeps wait_any_keeps)
qed

lemma foreground_without_terminal:
  assumes "\<not> tty s"
  shows "fg (put_process_in_foreground p s) = fg s"
    and "modes (put_process_in_foreground p s) = modes s"
proof -
  let ?s1 = "tcsetpgrp (shell_terminal s) p s"
  let ?s2 = "snd (wait_any ?s1)"
  let ?s3 = "tcsetpgrp (shell_terminal ?s2) (shell_pgid ?s2) ?s2"
  have t1: "\<not> tty ?s1" using assms by (simp add: tcsetpgrp_keeps)
  then have t2: "\<not> tty ?s2" by (simp add: wait_any_keeps)
  then have t3: "\<not> tty ?s3" by (simp add: tcsetpgrp_keeps)
  show "fg (put_process_in_foreground p s) = fg s"
    unfolding put_process_in_foreground_def Let_def
    using assms t1 t2 t3 by (simp add: tcsetattr_keeps tcsetpgrp_keeps wait_any_keeps)
  show "modes (put_process_in_foreground p s) = modes s"
    unfolding put_process_in_foreground_def Let_def
    using assms t1 t2 t3 by (simp add: tcsetattr_keeps tcsetpgrp_keeps wait_any_keeps)
qed

lemma launch_foreground:
  "\<not> program_needs_put_in_background tokens \<Longrightarrow>
     fst (launch_process e tokens r s) =
       put_process_in_foreground (fork_value r)
         (setpgid (fork_value r) (fork_value r) (snd (fork_parent r s)))"
  unfolding launch_process_parts by (simp add: launch_process_parent_def)

lemma launch_background:
  "program_needs_put_in_background tokens \<Longrightarrow>
     fst (launch_process e tokens r s) =
       setpgid (fork_value r) (fork_value r) (snd (fork_parent r s))"
  unfolding launch_process_parts
  by (simp add: launch_process_parent_def put_process_in_background_def)

lemma launch_calls:
  "calls_since s (fst (launch_process e tokens r s)) =
     (if program_needs_put_in_background tokens
      then [Fork, Setpgid (fork_value r) (fork_value r)]
      else [Fork, Setpgid (fork_value r) (fork_value r),
            Tcsetpgrp (shell_terminal s) (fork_value r), Wait,
            Tcsetpgrp (shell_terminal s) (shell_pgid s),
            Tcsetattr (shell_terminal s) (shell_tmodes s)])"
proof -
  let ?s1 = "setpgid (fork_value r) (fork_value r) (snd (fork_parent r s))"
  have m: "memory ?s1 = memory s" by (simp add: setpgid_keeps fork_parent_keeps)
  have l: "log (self ?s1) = log (self s) @ [Fork, Setpgid (fork_value r) (fork_value r)]"
    by (simp add: setpgid_keeps fork_parent_keeps)
  show ?thesis
  proof (cases "program_needs_put_in_background tokens")
    case True
    then show ?thesis
      using l by (simp add: launch_background calls_since_def)
  next
    case False
    then show ?thesis
      using l memory_fields [OF m]
      by (simp add: launch_foreground foreground_calls calls_since_def)
  qed
qed

lemma put_process_in_foreground_steps:
  "put_process_in_foreground p s =
     tcsetattr (shell_terminal s) (shell_tmodes s)
       (tcsetpgrp (shell_terminal s) (shell_pgid s)
          (snd (wait_any (tcsetpgrp (shell_terminal s) p s))))"
proof -
  let ?s1 = "tcsetpgrp (shell_terminal s) p s"
  let ?s2 = "snd (wait_any ?s1)"
  have m2: "memory ?s2 = memory s"
    by (simp add: wait_any_keeps tcsetpgrp_keeps)
  let ?s3 = "tcsetpgrp (shell_terminal ?s2) (shell_pgid ?s2) ?s2"
  have m3: "memory ?s3 = memory s"
    by (simp add: tcsetpgrp_keeps m2)
  show ?thesis
    unfolding put_process_in_foreground_def Let_def
    using memory_fields [OF m2] memory_fields [OF m3] by simp
qed

lemma tcsetpgrp_others:
  "children (tcsetpgrp fd g s) = children s"
  "blocked (tcsetpgrp fd g s) = blocked s"
  "pgid (self (tcsetpgrp fd g s)) = pgid (self s)"
  by (simp_all add: tcsetpgrp_def sys_def emit_def Let_def)

lemma tcsetattr_others:
  "children (tcsetattr fd m s) = children s"
  "blocked (tcsetattr fd m s) = blocked s"
  "tty s \<Longrightarrow> modes (tcsetattr 0 m s) = m"
  by (simp_all add: tcsetattr_def sys_def emit_def Let_def)

lemma wait_any_others:
  "pgid (self (snd (wait_any s))) = pgid (self s)"
  "blocked (snd (wait_any s)) =
     blocked s + (case soonest (children s) of None \<Rightarrow> 0 | Some c \<Rightarrow> lifetime c)"
  "children (snd (wait_any s)) =
     (case soonest (children s) of
        None \<Rightarrow> []
      | Some c \<Rightarrow> map (\<lambda>d. d\<lparr>lifetime := lifetime d - lifetime c\<rparr>)
                   (filter (\<lambda>d. cpid d \<noteq> cpid c) (children s)))"
proof -
  show "pgid (self (snd (wait_any s))) = pgid (self s)"
    by (simp add: wait_any_def sys_def emit_def Let_def split: option.splits)
  show "blocked (snd (wait_any s)) =
     blocked s + (case soonest (children s) of None \<Rightarrow> 0 | Some c \<Rightarrow> lifetime c)"
    by (simp add: wait_any_def sys_def Let_def split: option.splits)
  have "soonest cs = None \<Longrightarrow> cs = []" for cs
    by (cases cs) (auto split: option.splits if_splits)
  then show "children (snd (wait_any s)) =
     (case soonest (children s) of
        None \<Rightarrow> []
      | Some c \<Rightarrow> map (\<lambda>d. d\<lparr>lifetime := lifetime d - lifetime c\<rparr>)
                   (filter (\<lambda>d. cpid d \<noteq> cpid c) (children s)))"
    by (auto simp: wait_any_def sys_def Let_def split: option.splits)
qed

text \<open>What \<^verbatim>\<open>put_process_in_foreground\<close> leaves behind on a terminal.\<close>

lemma foreground_effect:
  "blocked (put_process_in_foreground p s) =
     blocked s + (case soonest (children s) of None \<Rightarrow> 0 | Some c \<Rightarrow> lifetime c)"
  "children (put_process_in_foreground p s) =
     (case soonest (children s) of
        None \<Rightarrow> []
      | Some c \<Rightarrow> map (\<lambda>d. d\<lparr>lifetime := lifetime d - lifetime c\<rparr>)
                   (filter (\<lambda>d. cpid d \<noteq> cpid c) (children s)))"
  "tty s \<Longrightarrow> shell_terminal s = 0 \<Longrightarrow> modes (put_process_in_foreground p s) = shell_tmodes s"
  "tty s \<Longrightarrow> shell_terminal s = 0 \<Longrightarrow> shell_pgid s = pgid (self s) \<Longrightarrow> 0 < pgid (self s) \<Longrightarrow>
     fg (put_process_in_foreground p s) = shell_pgid s"
proof -
  let ?s1 = "tcsetpgrp (shell_terminal s) p s"
  let ?s2 = "snd (wait_any ?s1)"
  let ?s3 = "tcsetpgrp (shell_terminal s) (shell_pgid s) ?s2"
  show "blocked (put_process_in_foreground p s) =
     blocked s + (case soonest (children s) of None \<Rightarrow> 0 | Some c \<Rightarrow> lifetime c)"
    unfolding put_process_in_foreground_steps
    by (simp add: tcsetattr_others tcsetpgrp_others wait_any_others)
  show "children (put_process_in_foreground p s) =
     (case soonest (children s) of
        None \<Rightarrow> []
      | Some c \<Rightarrow> map (\<lambda>d. d\<lparr>lifetime := lifetime d - lifetime c\<rparr>)
                   (filter (\<lambda>d. cpid d \<noteq> cpid c) (children s)))"
    unfolding put_process_in_foreground_steps
    by (simp add: tcsetattr_others tcsetpgrp_others wait_any_others split: option.splits)
  have t3: "tty ?s3" if "tty s"
    using that by (simp add: tcsetpgrp_keeps wait_any_keeps)
  show "modes (put_process_in_foreground p s) = shell_tmodes s"
    if "tty s" "shell_terminal s = 0"
    unfolding put_process_in_foreground_steps using t3 that
    by (simp add: tcsetattr_others)
  show "fg (put_process_in_foreground p s) = shell_pgid s"
    if "tty s" "shell_terminal s = 0" "shell_pgid s = pgid (self s)" "0 < pgid (self s)"
  proof -
    have "tty ?s2" using that(1) by (simp add: tcsetpgrp_keeps wait_any_keeps)
    moreover have "pgid (self ?s2) = pgid (self s)"
      by (simp add: wait_any_others tcsetpgrp_others)
    ultimately have "fg ?s3 = shell_pgid s"
      using that by (simp add: tcsetpgrp_def in_session_def Let_def)
    then show ?thesis
      unfolding put_process_in_foreground_steps by (simp add: tcsetattr_keeps)
  qed
qed

lemma forked_fields:
  "tty (setpgid v v (snd (fork_parent r s))) = tty s"
  "pgid (self (setpgid v v (snd (fork_parent r s)))) = pgid (self s)"
  "children (setpgid (fork_value r) (fork_value r) (snd (fork_parent r s))) =
     (case r of
        None \<Rightarrow> children s
      | Some c \<Rightarrow>
          if 0 < cpid c
          then map (\<lambda>d. if cpid d = cpid c then d\<lparr>cpgid := cpid c\<rparr> else d)
                 (children s @ [c\<lparr>cpgid := pgid (self s)\<rparr>])
          else children s @ [c\<lparr>cpgid := pgid (self s)\<rparr>])"
  by (simp_all add: setpgid_def fork_parent_def fork_value_def sys_def emit_def Let_def
      split: option.splits)

subsection \<open>Background jobs\<close>

text \<open>
  Claim C5, amended. For a command line that ends in \<^verbatim>\<open>&\<close>, whatever
  \<^verbatim>\<open>fork\<close> returned, the shell's own variables are afterwards what they were
  (\<^verbatim>\<open>put_process_in_background\<close> has an empty body: the pid is stored nowhere), its
  only calls are \<^verbatim>\<open>fork\<close> and \<^verbatim>\<open>setpgid\<close> (no \<^verbatim>\<open>wait\<close>, no
  \<^verbatim>\<open>tcsetpgrp\<close>), it has not been blocked, and the terminal's foreground group
  and settings are unchanged.
\<close>

theorem background_launch_returns_at_once:
  assumes "tokens \<noteq> []" and "last tokens = ''&''"
  shows "memory (fst (launch_process e tokens r s)) = memory s \<and>
         calls_since s (fst (launch_process e tokens r s)) =
           [Fork, Setpgid (fork_value r) (fork_value r)] \<and>
         blocked (fst (launch_process e tokens r s)) = blocked s \<and>
         fg (fst (launch_process e tokens r s)) = fg s \<and>
         modes (fst (launch_process e tokens r s)) = modes s"
proof -
  have "''&'' \<in> set tokens"
    using assms last_in_set [of tokens] by simp
  then have bg: "program_needs_put_in_background tokens"
    by (simp add: needs_background_iff)
  have "fst (launch_process e tokens r s) =
          setpgid (fork_value r) (fork_value r) (snd (fork_parent r s))"
    unfolding launch_process_parts
    by (simp add: launch_process_parent_def bg put_process_in_background_def)
  then show ?thesis
    by (simp add: setpgid_keeps fork_parent_keeps calls_since_def)
qed

text \<open>Claim C5: the amended statement at \<^verbatim>\<open>sleep 100 &\<close>.\<close>

theorem background_launch_returns_at_once_witness:
  "[''sleep'', ''100'', ''&''] \<noteq> [] \<and> last [''sleep'', ''100'', ''&''] = ''&'' \<and>
   calls_since demo_session
     (fst (launch_process demo_env [''sleep'', ''100'', ''&''] (Some (demo_job 50 100)) demo_session))
     = [Fork, Setpgid 50 50] \<and>
   blocked (fst (launch_process demo_env [''sleep'', ''100'', ''&''] (Some (demo_job 50 100))
                   demo_session)) = 0 \<and>
   fg (fst (launch_process demo_env [''sleep'', ''100'', ''&''] (Some (demo_job 50 100))
              demo_session)) = 40"
proof -
  let ?ts = "[''sleep'', ''100'', ''&'']"
  have h: "?ts \<noteq> []" "last ?ts = ''&''"
    by simp_all
  have "fork_value (Some (demo_job 50 100)) = 50" "blocked demo_session = 0" "fg demo_session = 40"
    by (simp_all add: fork_value_def demo_job_def demo_session_def)
  with background_launch_returns_at_once [OF h, of demo_env "Some (demo_job 50 100)" demo_session] h
  show ?thesis by simp
qed

text \<open>Claim C5 as stated fails there: whether the child has pid 50 or pid 60, the shell's
  variables afterwards are the same, so neither pid has been recorded.\<close>

theorem background_pid_is_not_recorded:
  "memory (fst (launch_process demo_env [''sleep'', ''100'', ''&''] (Some (demo_job 50 100))
                  demo_session)) =
   memory (fst (launch_process demo_env [''sleep'', ''100'', ''&''] (Some (demo_job 60 100))
                  demo_session))"
  by (simp add: parent_defs demo_session_def demo_job_def)

subsection \<open>Sessions without a terminal\<close>

text \<open>
  Claim C8, amended. When descriptor 0 is not a terminal, launching leaves the
  terminal's foreground group and settings as they were; but for a command line without
  \<^verbatim>\<open>&\<close> the shell still issues \<^verbatim>\<open>tcsetpgrp\<close> twice and \<^verbatim>\<open>tcsetattr\<close>
  once (they fail): \<^verbatim>\<open>put_process_in_foreground\<close> does not look at
  \<^verbatim>\<open>shell_is_interactive\<close>.
\<close>

theorem launch_without_terminal_leaves_it_untouched:
  assumes "\<not> tty s"
  shows "fg (fst (launch_process e tokens r s)) = fg s \<and>
         modes (fst (launch_process e tokens r s)) = modes s \<and>
         calls_since s (fst (launch_process e tokens r s)) =
           (if program_needs_put_in_background tokens
            then [Fork, Setpgid (fork_value r) (fork_value r)]
            else [Fork, Setpgid (fork_value r) (fork_value r),
                  Tcsetpgrp (shell_terminal s) (fork_value r), Wait,
                  Tcsetpgrp (shell_terminal s) (shell_pgid s),
                  Tcsetattr (shell_terminal s) (shell_tmodes s)])"
proof -
  let ?s1 = "setpgid (fork_value r) (fork_value r) (snd (fork_parent r s))"
  have t: "\<not> tty ?s1" using assms by (simp add: setpgid_keeps fork_parent_keeps)
  have m: "memory ?s1 = memory s" by (simp add: setpgid_keeps fork_parent_keeps)
  have l: "log (self ?s1) = log (self s) @ [Fork, Setpgid (fork_value r) (fork_value r)]"
    by (simp add: setpgid_keeps fork_parent_keeps)
  show ?thesis
  proof (cases "program_needs_put_in_background tokens")
    case True
    then have "fst (launch_process e tokens r s) = ?s1"
      unfolding launch_process_parts
      by (simp add: launch_process_parent_def put_process_in_background_def)
    then show ?thesis
      using True l by (simp add: setpgid_keeps fork_parent_keeps calls_since_def)
  next
    case False
    then have "fst (launch_process e tokens r s) = put_process_in_foreground (fork_value r) ?s1"
      unfolding launch_process_parts
      by (simp add: launch_process_parent_def)
    then show ?thesis
      using False l memory_fields [OF m] foreground_without_terminal [OF t]
      by (simp add: foreground_calls setpgid_keeps fork_parent_keeps calls_since_def)
  qed
qed

text \<open>Claim C8: the amended statement at \<^verbatim>\<open>ls\<close> with standard input from a pipe.\<close>

theorem launch_without_terminal_leaves_it_untouched_witness:
  "\<not> tty piped_session \<and>
   fg (fst (launch_process demo_env [''ls''] (Some (demo_job 50 3)) piped_session)) = 30 \<and>
   modes (fst (launch_process demo_env [''ls''] (Some (demo_job 50 3)) piped_session)) = 7 \<and>
   calls_since piped_session
     (fst (launch_process demo_env [''ls''] (Some (demo_job 50 3)) piped_session)) =
     [Fork, Setpgid 50 50, Tcsetpgrp 0 50, Wait, Tcsetpgrp 0 0, Tcsetattr 0 0]"
proof -
  have h: "\<not> tty piped_session"
    by (simp add: piped_session_def)
  have "fork_value (Some (demo_job 50 3)) = 50" "fg piped_session = 30" "modes piped_session = 7"
    "shell_terminal piped_session = 0" "shell_pgid piped_session = 0"
    "shell_tmodes piped_session = 0" "\<not> program_needs_put_in_background [''ls'']"
    by (simp_all add: fork_value_def demo_job_def piped_session_def needs_background_iff)
  with launch_without_terminal_leaves_it_untouched
         [OF h, of demo_env "[''ls'']" "Some (demo_job 50 3)"] h
  show ?thesis by simp
qed

text \<open>Claim C8 as stated fails there: in the session that \<^verbatim>\<open>init_shell\<close> sets up when
  standard input is not a terminal, the terminal calls are issued, not skipped.\<close>

theorem terminal_calls_are_not_skipped:
  "init_shell [] (boot demo_self False 30 7) = Some piped_session \<and>
   shell_is_interactive piped_session = False \<and>
   Tcsetpgrp 0 50 \<in> set (calls_since piped_session
     (fst (launch_process demo_env [''ls''] (Some (demo_job 50 3)) piped_session))) \<and>
   Tcsetattr 0 0 \<in> set (calls_since piped_session
     (fst (launch_process demo_env [''ls''] (Some (demo_job 50 3)) piped_session)))"
proof -
  have "\<not> program_needs_put_in_background [''ls'']"
    by (simp add: needs_background_iff)
  then have "calls_since piped_session
      (fst (launch_process demo_env [''ls''] (Some (demo_job 50 3)) piped_session)) =
      [Fork, Setpgid 50 50, Tcsetpgrp 0 50, Wait, Tcsetpgrp 0 0, Tcsetattr 0 0]"
    by (simp add: launch_calls fork_value_def demo_job_def piped_session_def)
  then show ?thesis
    by (simp add: piped_session_starts) (simp add: piped_session_def)
qed

subsection \<open>Failure of fork\<close>

text \<open>
  Claim C9, evaluated. When \<^verbatim>\<open>fork\<close> fails there is no child, and for a command
  line without \<^verbatim>\<open>&\<close> the shell goes on as after a successful \<^verbatim>\<open>fork\<close>, with
  \<open>-1\<close> for the pid: \<^verbatim>\<open>setpgid(-1, -1)\<close>, \<^verbatim>\<open>tcsetpgrp(shell_terminal, -1)\<close>,
  \<^verbatim>\<open>wait(NULL)\<close>, and the two calls that restore the terminal. Nothing is printed,
  and the shell is blocked until the first of its earlier children terminates, if it
  has any.
\<close>

theorem fork_failure_is_not_noticed:
  assumes "\<not> program_needs_put_in_background tokens"
  shows "snd (launch_process e tokens None s) = None \<and>
         calls_since s (fst (launch_process e tokens None s)) =
           [Fork, Setpgid (- 1) (- 1), Tcsetpgrp (shell_terminal s) (- 1), Wait,
            Tcsetpgrp (shell_terminal s) (shell_pgid s),
            Tcsetattr (shell_terminal s) (shell_tmodes s)] \<and>
         blocked (fst (launch_process e tokens None s)) =
           blocked s + (case soonest (children s) of None \<Rightarrow> 0 | Some c \<Rightarrow> lifetime c)"
proof -
  let ?s0 = "sys Fork s"
  let ?s1 = "setpgid (- 1) (- 1) ?s0"
  have f: "fork_parent None s = (- 1, ?s0)" by (simp add: fork_parent_def)
  have m: "memory ?s1 = memory s" by (simp add: setpgid_keeps) (simp add: memory_def sys_def)
  have l: "log (self ?s1) = log (self s) @ [Fork, Setpgid (- 1) (- 1)]"
    by (simp add: setpgid_keeps) (simp add: sys_def emit_def)
  have eq: "fst (launch_process e tokens None s) = put_process_in_foreground (- 1) ?s1"
    using assms by (simp add: launch_process_def f launch_process_parent_def)
  have c: "children ?s1 = children s" "blocked ?s1 = blocked s"
    by (simp_all add: setpgid_def sys_def Let_def)
  have b: "blocked (put_process_in_foreground (- 1) ?s1) =
        blocked ?s1 + (case soonest (children ?s1) of None \<Rightarrow> 0 | Some c \<Rightarrow> lifetime c)"
    by (simp add: put_process_in_foreground_def tcsetpgrp_def tcsetattr_def wait_any_def
        sys_def Let_def split: option.splits)
  show ?thesis
    unfolding eq using l memory_fields [OF m] b c
    by (simp add: foreground_calls calls_since_def launch_process_def f)
qed

text \<open>Claim C9: the evaluation at \<^verbatim>\<open>ls\<close>, with one earlier background job that runs
  for another 100 time units.\<close>

theorem fork_failure_is_not_noticed_witness:
  "\<not> program_needs_put_in_background [''ls''] \<and>
   snd (launch_process demo_env [''ls''] None
          (demo_session\<lparr>children := [(demo_job 50 100)\<lparr>cpgid := 50\<rparr>]\<rparr>)) = None \<and>
   calls_since (demo_session\<lparr>children := [(demo_job 50 100)\<lparr>cpgid := 50\<rparr>]\<rparr>)
     (fst (launch_process demo_env [''ls''] None
             (demo_session\<lparr>children := [(demo_job 50 100)\<lparr>cpgid := 50\<rparr>]\<rparr>))) =
     [Fork, Setpgid (- 1) (- 1), Tcsetpgrp 0 (- 1), Wait, Tcsetpgrp 0 40, Tcsetattr 0 7] \<and>
   blocked (fst (launch_process demo_env [''ls''] None
             (demo_session\<lparr>children := [(demo_job 50 100)\<lparr>cpgid := 50\<rparr>]\<rparr>))) = 100"
proof -
  let ?s = "demo_session\<lparr>children := [(demo_job 50 100)\<lparr>cpgid := 50\<rparr>]\<rparr>"
  have h: "\<not> program_needs_put_in_background [''ls'']"
    by (simp add: needs_background_iff)
  have "shell_terminal ?s = 0" "shell_pgid ?s = 40" "shell_tmodes ?s = 7" "blocked ?s = 0"
    "(case soonest (children ?s) of None \<Rightarrow> 0 | Some c \<Rightarrow> lifetime c) = 100"
    by (simp_all add: demo_session_def demo_job_def)
  with fork_failure_is_not_noticed [OF h, of demo_env ?s] h show ?thesis
    by simp
qed

subsection \<open>The foreground wait\<close>

text \<open>
  Claim C1, evaluated on the two lines \<^verbatim>\<open>true &\<close> and \<^verbatim>\<open>sleep 100\<close> of an
  interactive session. The background job (pid 50) has terminated and has never been
  waited for when the second line forks its child (pid 51, which runs for 100 time
  units). \<^verbatim>\<open>wait(NULL)\<close> returns for pid 50: the shell has not been blocked at all,
  pid 51 is still a child with its 100 units to run, and the terminal is back with the
  shell's group.
\<close>

theorem foreground_wait_returns_for_another_child:
  "children (fst (launch_process demo_env [''sleep'', ''100''] (Some (demo_job 51 100))
      (fst (launch_process demo_env [''true'', ''&''] (Some (demo_job 50 0)) demo_session))))
     = [\<lparr>cpid = 51, cpgid = 51, lifetime = 100, leaves = 9\<rparr>] \<and>
   blocked (fst (launch_process demo_env [''sleep'', ''100''] (Some (demo_job 51 100))
      (fst (launch_process demo_env [''true'', ''&''] (Some (demo_job 50 0)) demo_session))))
     = 0 \<and>
   fg (fst (launch_process demo_env [''sleep'', ''100''] (Some (demo_job 51 100))
      (fst (launch_process demo_env [''true'', ''&''] (Some (demo_job 50 0)) demo_session))))
     = 40"
proof -
  let ?s0 = "fst (launch_process demo_env [''true'', ''&''] (Some (demo_job 50 0)) demo_session)"
  let ?r = "Some (demo_job 51 100)"
  let ?s1 = "setpgid (fork_value ?r) (fork_value ?r) (snd (fork_parent ?r ?s0))"
  have bg: "program_needs_put_in_background [''true'', ''&'']"
    and fgr: "\<not> program_needs_put_in_background [''sleep'', ''100'']"
    by (simp_all add: needs_background_iff)
  have s0: "children ?s0 = [\<lparr>cpid = 50, cpgid = 50, lifetime = 0, leaves = 9\<rparr>]"
    "blocked ?s0 = 0" "tty ?s0" "pgid (self ?s0) = 40" "memory ?s0 = memory demo_session"
    unfolding launch_background [OF bg]
    by (simp_all add: forked_fields setpgid_keeps fork_parent_keeps)
       (simp_all add: demo_session_def demo_job_def demo_self_def fork_value_def)
  have m1: "memory ?s1 = memory demo_session"
    by (simp add: setpgid_keeps fork_parent_keeps s0)
  have g1: "shell_terminal ?s1 = 0" "shell_pgid ?s1 = 40"
    using memory_fields [OF m1] by (simp_all add: demo_session_def)
  have s1: "children ?s1 = [\<lparr>cpid = 50, cpgid = 50, lifetime = 0, leaves = 9\<rparr>,
                            \<lparr>cpid = 51, cpgid = 51, lifetime = 100, leaves = 9\<rparr>]"
    "blocked ?s1 = 0" "tty ?s1" "pgid (self ?s1) = 40"
    by (simp_all add: forked_fields setpgid_keeps fork_parent_keeps s0)
       (simp_all add: demo_job_def fork_value_def)
  show ?thesis
    unfolding launch_foreground [OF fgr]
    by (simp add: foreground_effect s1 g1)
qed

text \<open>
  With no other child the same code does what the claim says: in an interactive session
  whose shell leads its own group, the terminal is offered to the job's group, the
  shell is blocked for exactly the job's lifetime, and afterwards the terminal is back
  with the shell's group, with the saved settings, whatever the job left behind.
\<close>

lemma foreground_job_alone:
  assumes "tty s" and "shell_terminal s = 0" and "shell_pgid s = pgid (self s)"
      and "0 < pgid (self s)" and "0 < cpid c" and "children s = []"
      and "\<not> program_needs_put_in_background tokens"
  shows "calls_since s (fst (launch_process e tokens (Some c) s)) =
           [Fork, Setpgid (cpid c) (cpid c), Tcsetpgrp 0 (cpid c), Wait,
            Tcsetpgrp 0 (shell_pgid s), Tcsetattr 0 (shell_tmodes s)]"
    and "blocked (fst (launch_process e tokens (Some c) s)) = blocked s + lifetime c"
    and "children (fst (launch_process e tokens (Some c) s)) = []"
    and "fg (fst (launch_process e tokens (Some c) s)) = shell_pgid s"
    and "modes (fst (launch_process e tokens (Some c) s)) = shell_tmodes s"
proof -
  let ?r = "Some c"
  let ?s1 = "setpgid (fork_value ?r) (fork_value ?r) (snd (fork_parent ?r s))"
  have m1: "memory ?s1 = memory s"
    by (simp add: setpgid_keeps fork_parent_keeps)
  note g1 = memory_fields [OF m1]
  have s1: "children ?s1 = [c\<lparr>cpgid := cpid c\<rparr>]" "blocked ?s1 = blocked s" "tty ?s1"
    "pgid (self ?s1) = pgid (self s)"
    using assms by (simp_all add: forked_fields setpgid_keeps fork_parent_keeps)
  show "calls_since s (fst (launch_process e tokens (Some c) s)) =
           [Fork, Setpgid (cpid c) (cpid c), Tcsetpgrp 0 (cpid c), Wait,
            Tcsetpgrp 0 (shell_pgid s), Tcsetattr 0 (shell_tmodes s)]"
    using assms by (simp add: launch_calls fork_value_def)
  show "blocked (fst (launch_process e tokens (Some c) s)) = blocked s + lifetime c"
    unfolding launch_foreground [OF assms(7)] by (simp add: foreground_effect s1)
  show "children (fst (launch_process e tokens (Some c) s)) = []"
    unfolding launch_foreground [OF assms(7)] by (simp add: foreground_effect s1)
  show "fg (fst (launch_process e tokens (Some c) s)) = shell_pgid s"
    unfolding launch_foreground [OF assms(7)] using assms g1
    by (simp add: foreground_effect s1)
  show "modes (fst (launch_process e tokens (Some c) s)) = shell_tmodes s"
    unfolding launch_foreground [OF assms(7)] using assms g1
    by (simp add: foreground_effect s1)
qed

end
